theory Spec2Isabelle
  imports Main "HOL-Library.Multiset" "HOL-Library.Numeral_Type" "HOL-Library.Word"
begin

section \<open>Threshold signatures over Shamir secret sharing\<close>

text \<open>
  The development embeds \<^verbatim>\<open>BLS_Threshold_Signature.py\<close> and
  \<^verbatim>\<open>ECDSA_Threshold_Signature.py\<close>. Python's integers are \<^typ>\<open>int\<close>; every
  \<^verbatim>\<open>%\<close> of the two files has the group order as its right operand, which is
  positive, so Python's \<^verbatim>\<open>%\<close> and \<^verbatim>\<open>//\<close> are \<open>mod\<close> and \<open>div\<close> on
  \<^typ>\<open>int\<close> (both round towards minus infinity).

  Every \<^verbatim>\<open>raise\<close> of the two files is a \<^verbatim>\<open>ValueError\<close> told apart by its
  message only; the constructors below name the raise sites:
  \<^item> \<open>UnknownParty\<close>: \<^verbatim>\<open>get_private_share\<close>, \<^verbatim>\<open>get_public_key_share\<close>
    (party id outside 1..n);
  \<^item> \<open>InsufficientSigners\<close>: \<^verbatim>\<open>combine_signatures\<close> (fewer than threshold partials);
  \<^item> \<open>InsufficientShares\<close>: \<^verbatim>\<open>reconstruct_secret\<close> (fewer than threshold shares);
  \<^item> \<open>InconsistentNonce\<close>: \<^verbatim>\<open>combine_signatures\<close> of the ECDSA file (r values differ);
  \<^item> \<open>InvalidInput\<close>: the \<^verbatim>\<open>ValueError\<close> of \<^verbatim>\<open>Crypto.Util.number.inverse\<close>;
  \<^item> \<open>InvalidNonce\<close>: named by the specification, raised nowhere in the two files;
  \<^item> \<open>TypeError\<close>, \<open>IndexError\<close>, \<open>ZeroDivisionError\<close>: the interpreter's own;
  \<^item> \<open>UnicodeEncodeError\<close>: raised by \<^verbatim>\<open>print\<close> when the output stream cannot encode
    the text;
  \<^item> \<open>LibraryError\<close>: any other exception out of a library that derives from
    \<^verbatim>\<open>Exception\<close>;
  \<^item> \<open>KeyboardInterrupt\<close>: an exception that derives from \<^verbatim>\<open>BaseException\<close> but
    not from \<^verbatim>\<open>Exception\<close> (\<^verbatim>\<open>KeyboardInterrupt\<close>, \<^verbatim>\<open>SystemExit\<close>,
    \<^verbatim>\<open>GeneratorExit\<close>).
  \<open>is_Exception e\<close> says that \<^verbatim>\<open>except Exception\<close> catches \<open>e\<close>.
\<close>

datatype error =
    UnknownParty
  | InsufficientSigners
  | InsufficientShares
  | InconsistentNonce
  | InvalidInput
  | InvalidNonce
  | TypeError
  | IndexError
  | ZeroDivisionError
  | UnicodeEncodeError
  | LibraryError
  | KeyboardInterrupt

fun is_Exception :: "error \<Rightarrow> bool" where
  "is_Exception KeyboardInterrupt = False"
| "is_Exception e = True"

type_synonym bytes = "8 word list"

subsection \<open>Python list slicing\<close>

definition py_prefix :: "int \<Rightarrow> 'a list \<Rightarrow> 'a list" where
  \<comment> \<open>\<^verbatim>\<open>xs[:t]\<close>: a negative \<^verbatim>\<open>t\<close> counts from the end.\<close>
  "py_prefix t xs = (if 0 \<le> t then take (nat t) xs else take (length xs - nat (- t)) xs)"

subsection \<open>Modular inverses of the two libraries\<close>

text \<open>
  \<^verbatim>\<open>py_ecc.utils.prime_field_inv\<close> (imported by the BLS file) and
  \<^verbatim>\<open>Crypto.Util.number.inverse\<close> (imported by the ECDSA file) are library
  functions: their text is not part of the repository. They are embedded here from the
  libraries' published definitions, loop by loop.

  \<^verbatim>\<open>
  def prime_field_inv(a, n):
      a %= n
      if a == 0:
          return 0
      lm, hm = 1, 0
      low, high = a % n, n
      while low > 1:
          r = high // low
          nm, new = hm - lm * r, high - low * r
          lm, low, hm, high = nm, new, lm, low
      return lm % n
  \<close>
\<close>

function prime_field_inv_loop :: "int \<Rightarrow> int \<Rightarrow> int \<Rightarrow> int \<Rightarrow> int" where
  "prime_field_inv_loop lm low hm high =
     (if low > 1
      then (let r = high div low
            in prime_field_inv_loop (hm - lm * r) (high - low * r) lm low)
      else lm)"
  by pat_completeness auto
termination
proof (relation "measure (\<lambda>(lm, low, hm, high). nat low)")
  show "wf (measure (\<lambda>(lm, low, hm, high). nat low))" by simp
next
  fix lm low hm high :: int and r :: int
  assume h: "1 < low" and r: "r = high div low"
  have "high - low * r = high mod low"
    using r by (simp add: minus_mult_div_eq_mod)
  moreover have "high mod low < low" "0 \<le> high mod low"
    using h by simp_all
  ultimately show "((hm - lm * r, high - low * r, lm, low), (lm, low, hm, high))
      \<in> measure (\<lambda>(lm, low, hm, high). nat low)"
    by simp
qed

declare prime_field_inv_loop.simps [simp del]

definition prime_field_inv :: "int \<Rightarrow> int \<Rightarrow> int" where
  "prime_field_inv a n =
     (let a' = a mod n
      in if a' = 0 then 0 else prime_field_inv_loop 1 (a' mod n) 0 n mod n)"

text \<open>
  \<^verbatim>\<open>
  def inverse(u, v):
      if v == 0: raise ZeroDivisionError("Modulus cannot be zero")
      if v < 0: raise ValueError("Modulus cannot be negative")
      u3, v3 = u, v
      u1, v1 = 1, 0
      while v3 > 0:
          q = u3 // v3
          u1, v1 = v1, u1 - v1*q
          u3, v3 = v3, u3 - v3*q
      if u3 != 1: raise ValueError("No inverse value can be computed")
      while u1 < 0:
          u1 = u1 + v
      return u1
  \<close>
\<close>

function inverse_loop :: "int \<Rightarrow> int \<Rightarrow> int \<Rightarrow> int \<Rightarrow> int \<times> int" where
  "inverse_loop u1 v1 u3 v3 =
     (if v3 > 0
      then (let q = u3 div v3
            in inverse_loop v1 (u1 - v1 * q) v3 (u3 - v3 * q))
      else (u1, u3))"
  by pat_completeness auto
termination
proof (relation "measure (\<lambda>(u1, v1, u3, v3). nat v3)")
  show "wf (measure (\<lambda>(u1, v1, u3, v3). nat v3))" by simp
next
  fix u1 v1 u3 v3 :: int and q :: int
  assume h: "0 < v3" and q: "q = u3 div v3"
  have "u3 - v3 * q = u3 mod v3"
    using q by (simp add: minus_mult_div_eq_mod)
  moreover have "u3 mod v3 < v3" "0 \<le> u3 mod v3"
    using h by simp_all
  ultimately show "((v1, u1 - v1 * q, v3, u3 - v3 * q), (u1, v1, u3, v3))
      \<in> measure (\<lambda>(u1, v1, u3, v3). nat v3)"
    by simp
qed

declare inverse_loop.simps [simp del]

function inverse_lift :: "int \<Rightarrow> int \<Rightarrow> int" where
  \<comment> \<open>\<^verbatim>\<open>while u1 < 0: u1 = u1 + v\<close>; it is reached with \<^verbatim>\<open>v > 0\<close> only.\<close>
  "inverse_lift u1 v = (if u1 < 0 \<and> 0 < v then inverse_lift (u1 + v) v else u1)"
  by pat_completeness auto
termination
  by (relation "measure (\<lambda>(u1, v). nat (- u1))") auto

declare inverse_lift.simps [simp del]

definition inverse_mod :: "int \<Rightarrow> int \<Rightarrow> error + int" where
  "inverse_mod u v =
     (if v = 0 then Inl ZeroDivisionError
      else if v < 0 then Inl InvalidInput
      else (case inverse_loop 1 0 u v of
              (u1, u3) \<Rightarrow> if u3 \<noteq> 1 then Inl InvalidInput else Inr (inverse_lift u1 v)))"

subsection \<open>Shamir secret sharing (the class of both files)\<close>

text \<open>
  The dataclass \<^verbatim>\<open>SecretShare\<close> has the fields \<^verbatim>\<open>x\<close> and \<^verbatim>\<open>y\<close>; they are
  \<open>share_x\<close> and \<open>share_y\<close> here. \<^verbatim>\<open>ShamirSecretSharing\<close> is the same
  text in both files but for the inverse it calls in \<^verbatim>\<open>lagrange_coefficient\<close>.
  Its fields \<^verbatim>\<open>threshold\<close>, \<^verbatim>\<open>num_parties\<close> and \<^verbatim>\<open>prime\<close> are passed as
  arguments.
\<close>

record SecretShare =
  share_x :: int
  share_y :: int

definition generate_polynomial :: "int \<Rightarrow> (nat \<Rightarrow> int) \<Rightarrow> int \<Rightarrow> int list" where
  \<comment> \<open>\<open>rnd k\<close> is what the \<open>k\<close>-th call of \<^verbatim>\<open>secrets.randbelow(self.prime)\<close> returns.\<close>
  "generate_polynomial threshold rnd secret = secret # map rnd [0..<nat (threshold - 1)]"

fun evaluate_loop :: "int \<Rightarrow> int \<Rightarrow> nat \<Rightarrow> int list \<Rightarrow> int \<Rightarrow> int" where
  "evaluate_loop p x i [] result = result"
| "evaluate_loop p x i (coeff # rest) result =
     evaluate_loop p x (Suc i) rest ((result + coeff * (x ^ i mod p)) mod p)"

definition evaluate_polynomial :: "int \<Rightarrow> int list \<Rightarrow> int \<Rightarrow> int" where
  "evaluate_polynomial p coefficients x = evaluate_loop p x 0 coefficients 0"

definition create_shares :: "int \<Rightarrow> int \<Rightarrow> int \<Rightarrow> (nat \<Rightarrow> int) \<Rightarrow> int \<Rightarrow> SecretShare list" where
  "create_shares p threshold num_parties rnd secret =
     (let coefficients = generate_polynomial threshold rnd secret
      in map (\<lambda>i. \<lparr>share_x = i, share_y = evaluate_polynomial p coefficients i\<rparr>)
             [1..num_parties])"

fun lagrange_loop :: "int \<Rightarrow> int \<Rightarrow> nat \<Rightarrow> nat \<Rightarrow> SecretShare list \<Rightarrow> int \<times> int \<Rightarrow> int \<times> int" where
  \<comment> \<open>the loop over \<^verbatim>\<open>enumerate(shares)\<close>; the pair is (numerator, denominator)\<close>
  "lagrange_loop p xi i j [] (numerator, denominator) = (numerator, denominator)"
| "lagrange_loop p xi i j (share # rest) (numerator, denominator) =
     lagrange_loop p xi i (Suc j) rest
       (if i \<noteq> j
        then ((numerator * (- share_x share)) mod p, (denominator * (xi - share_x share)) mod p)
        else (numerator, denominator))"

definition bls_lagrange_coefficient :: "int \<Rightarrow> SecretShare list \<Rightarrow> nat \<Rightarrow> error + int" where
  "bls_lagrange_coefficient p shares i =
     (if i < length shares
      then (case lagrange_loop p (share_x (shares ! i)) i 0 shares (1, 1) of
              (numerator, denominator) \<Rightarrow>
                Inr ((numerator * prime_field_inv denominator p) mod p))
      else Inl IndexError)"

definition ecdsa_lagrange_coefficient :: "int \<Rightarrow> SecretShare list \<Rightarrow> nat \<Rightarrow> error + int" where
  "ecdsa_lagrange_coefficient p shares i =
     (if i < length shares
      then (case lagrange_loop p (share_x (shares ! i)) i 0 shares (1, 1) of
              (numerator, denominator) \<Rightarrow>
                (case inverse_mod denominator p of
                   Inl e \<Rightarrow> Inl e
                 | Inr w \<Rightarrow> Inr ((numerator * w) mod p)))
      else Inl IndexError)"

fun reconstruct_loop :: "int \<Rightarrow> SecretShare list \<Rightarrow> nat \<Rightarrow> SecretShare list \<Rightarrow> int \<Rightarrow> error + int" where
  "reconstruct_loop p selected i [] secret = Inr secret"
| "reconstruct_loop p selected i (share # rest) secret =
     (case ecdsa_lagrange_coefficient p selected i of
        Inl e \<Rightarrow> Inl e
      | Inr coeff \<Rightarrow> reconstruct_loop p selected (Suc i) rest ((secret + share_y share * coeff) mod p))"

definition reconstruct_secret :: "int \<Rightarrow> int \<Rightarrow> SecretShare list \<Rightarrow> error + int" where
  "reconstruct_secret p threshold shares =
     (if int (length shares) < threshold then Inl InsufficientShares
      else (let selected_shares = py_prefix threshold shares
            in reconstruct_loop p selected_shares 0 selected_shares 0))"

subsection \<open>ECDSA threshold signatures\<close>

text \<open>
  The curve comes from the \<^verbatim>\<open>ecdsa\<close> package and SHA-256 from \<^verbatim>\<open>hashlib\<close>; both
  are parameters of the model. \<open>point_x\<close> is the method \<^verbatim>\<open>x()\<close>, which returns
  \<^verbatim>\<open>None\<close> on the point at infinity; \<open>ec_sha256 m\<close> is
  \<^verbatim>\<open>int.from_bytes(hashlib.sha256(m).digest(), 'big')\<close>.
\<close>

record 'pt secp256k1 =
  generator :: 'pt
  order :: int
  INFINITY :: 'pt
  scalar_mul :: "int \<Rightarrow> 'pt \<Rightarrow> 'pt"
  point_add :: "'pt \<Rightarrow> 'pt \<Rightarrow> 'pt"
  point_x :: "'pt \<Rightarrow> int option"
  ec_sha256 :: "bytes \<Rightarrow> int"

text \<open>
  The dataclass \<^verbatim>\<open>PartialSignature\<close> (fields \<^verbatim>\<open>signer_id\<close>, \<^verbatim>\<open>r\<close>, \<^verbatim>\<open>s\<close>)
  and the object \<^verbatim>\<open>ThresholdSignature\<close>; \<open>shared_k\<close> is the attribute
  \<^verbatim>\<open>_shared_k\<close>, \<open>None\<close> while it is not set. The fields and methods of this
  class carry the prefix \<open>ts_\<close>, since the class of the BLS file has the same names;
  \<open>ts_threshold\<close> and \<open>ts_prime\<close> are also the \<^verbatim>\<open>threshold\<close> and
  \<^verbatim>\<open>prime\<close> of the object \<^verbatim>\<open>self.sss\<close>, which \<^verbatim>\<open>__init__\<close> builds from
  them.
\<close>

record PartialSignature =
  ps_signer_id :: int
  ps_r :: int
  ps_s :: int

record 'pt ThresholdSignature =
  ts_threshold :: int
  ts_num_parties :: int
  ts_prime :: int
  ts_public_key :: 'pt
  ts_private_shares :: "SecretShare list"
  shared_k :: "int option"

definition ThresholdSignature_init ::
  "'pt secp256k1 \<Rightarrow> int \<Rightarrow> int \<Rightarrow> int \<Rightarrow> (nat \<Rightarrow> int) \<Rightarrow> 'pt ThresholdSignature" where
  \<comment> \<open>\<open>sk\<close> is the secret multiplier of the generated master key; the result is the
      object that \<^verbatim>\<open>__init__\<close> leaves when it returns (its closing \<^verbatim>\<open>print\<close>
      statements have returned)\<close>
  "ThresholdSignature_init curve threshold num_parties sk rnd =
     \<lparr>ts_threshold = threshold, ts_num_parties = num_parties, ts_prime = order curve,
      ts_public_key = scalar_mul curve sk (generator curve),
      ts_private_shares = create_shares (order curve) threshold num_parties rnd sk,
      shared_k = None\<rparr>"

definition ts_get_private_share :: "'pt ThresholdSignature \<Rightarrow> int \<Rightarrow> error + SecretShare" where
  "ts_get_private_share self party_id =
     (if party_id < 1 \<or> party_id > ts_num_parties self then Inl UnknownParty
      else if nat (party_id - 1) < length (ts_private_shares self)
      then Inr (ts_private_shares self ! nat (party_id - 1))
      else Inl IndexError)"

definition ts_create_partial_signature ::
  "'pt secp256k1 \<Rightarrow> 'pt ThresholdSignature \<Rightarrow> int \<Rightarrow> bytes \<Rightarrow> int option \<Rightarrow> int
     \<Rightarrow> (error + PartialSignature) \<times> 'pt ThresholdSignature" where
  \<comment> \<open>\<open>k_arg\<close> is the argument \<^verbatim>\<open>k\<close>; \<open>fresh\<close> is what
      \<^verbatim>\<open>secrets.randbelow(self.prime - 1)\<close> returns if it is called; the second component
      of the result is the object after the call, also when the call raises\<close>
  "ts_create_partial_signature curve self party_id message k_arg fresh =
     (case ts_get_private_share self party_id of
        Inl e \<Rightarrow> (Inl e, self)
      | Inr private_share \<Rightarrow>
          (let hash_int = ec_sha256 curve message mod ts_prime self;
               (k, self') = (case k_arg of
                               Some k \<Rightarrow> (k, self)
                             | None \<Rightarrow> (case shared_k self of
                                          Some k \<Rightarrow> (k, self)
                                        | None \<Rightarrow> (fresh + 1, self\<lparr>shared_k := Some (fresh + 1)\<rparr>)))
           in (case point_x curve (scalar_mul curve k (generator curve)) of
                 None \<Rightarrow> (Inl TypeError, self')
               | Some px \<Rightarrow>
                   (let r = px mod ts_prime self
                    in (case inverse_mod k (ts_prime self) of
                          Inl e \<Rightarrow> (Inl e, self')
                        | Inr k_inv \<Rightarrow>
                            (Inr \<lparr>ps_signer_id = party_id, ps_r = r,
                                  ps_s = (k_inv * (hash_int + r * share_y private_share))
                                           mod ts_prime self\<rparr>, self'))))))"

definition ts_combine_signatures ::
  "'pt ThresholdSignature \<Rightarrow> PartialSignature list \<Rightarrow> bytes \<Rightarrow> error + (int \<times> int)" where
  "ts_combine_signatures self partial_sigs message =
     (if int (length partial_sigs) < ts_threshold self then Inl InsufficientSigners
      else (let r_values = map ps_r partial_sigs
            in if card (set r_values) \<noteq> 1 then Inl InconsistentNonce
               else (let r = ps_r (partial_sigs ! 0);
                         s_shares = map (\<lambda>sig. \<lparr>share_x = ps_signer_id sig, share_y = ps_s sig\<rparr>)
                                        (py_prefix (ts_threshold self) partial_sigs)
                     in (case reconstruct_secret (ts_prime self) (ts_threshold self) s_shares of
                           Inl e \<Rightarrow> Inl e
                         | Inr s_combined \<Rightarrow> Inr (r, s_combined)))))"

text \<open>
  The argument of \<^verbatim>\<open>verify_signature\<close> is any Python value: \<open>SigPair r s\<close> is a
  pair of integers, \<open>SigOther e\<close> anything that \<^verbatim>\<open>r, s = signature\<close> or the
  comparisons after it reject with an exception.
\<close>

datatype sigvalue = SigPair int int | SigOther error

definition ts_verify_body :: "'pt secp256k1 \<Rightarrow> 'pt ThresholdSignature \<Rightarrow> sigvalue \<Rightarrow> bytes \<Rightarrow> error + bool" where
  \<comment> \<open>the statements under \<^verbatim>\<open>try:\<close>\<close>
  "ts_verify_body curve self signature message =
     (case signature of
        SigOther e \<Rightarrow> Inl e
      | SigPair r s \<Rightarrow>
          if r \<le> 0 \<or> r \<ge> ts_prime self \<or> s \<le> 0 \<or> s \<ge> ts_prime self then Inr False
          else (let hash_int = ec_sha256 curve message mod ts_prime self
                in (case inverse_mod s (ts_prime self) of
                      Inl e \<Rightarrow> Inl e
                    | Inr w \<Rightarrow>
                        (let u1 = (hash_int * w) mod ts_prime self;
                             u2 = (r * w) mod ts_prime self;
                             point1 = scalar_mul curve u1 (generator curve);
                             point2 = scalar_mul curve u2 (ts_public_key self);
                             result_point = point_add curve point1 point2
                         in (case point_x curve result_point of
                               None \<Rightarrow> Inl TypeError
                             | Some px \<Rightarrow> Inr (r = px mod ts_prime self))))))"

text \<open>
  The three verification methods have the shape
  \<^verbatim>\<open>
  try:
      ...
  except Exception as e:
      print(f"...: {e}")
      return False
  \<close>
  The result \<open>Inl x\<close> of a method is an exception \<open>x\<close> that leaves it. The handler
  catches what derives from \<^verbatim>\<open>Exception\<close> only, and its \<^verbatim>\<open>print\<close> runs before
  \<^verbatim>\<open>return False\<close>. The parameter \<open>out\<close> of a method is that statement:
  \<open>out e\<close> is \<open>None\<close> when the \<^verbatim>\<open>print\<close> for the caught exception \<open>e\<close>
  returns, and \<open>Some x\<close> when it raises \<open>x\<close> (the stream cannot encode the text, or
  \<^verbatim>\<open>str(e)\<close> raises).
\<close>

definition ts_verify_signature ::
  "'pt secp256k1 \<Rightarrow> (error \<Rightarrow> error option) \<Rightarrow> 'pt ThresholdSignature \<Rightarrow> sigvalue \<Rightarrow> bytes
     \<Rightarrow> error + bool" where
  "ts_verify_signature curve out self signature message =
     (case ts_verify_body curve self signature message of
        Inr b \<Rightarrow> Inr b
      | Inl e \<Rightarrow>
          if is_Exception e
          then (case out e of None \<Rightarrow> Inr False | Some x \<Rightarrow> Inl x)
          else Inl e)"

subsection \<open>BLS threshold signatures\<close>

text \<open>
  The groups and the pairing come from \<^verbatim>\<open>py_ecc.bn128\<close> and are parameters of the
  model. \<open>Z1\<close> is the library's point at infinity of G1, which \<^verbatim>\<open>py_ecc\<close>
  represents by \<^verbatim>\<open>None\<close>: the value the accumulator of \<^verbatim>\<open>combine_signatures\<close>
  starts with. \<open>multiply\<close> and \<open>add\<close> are the library's functions on G1,
  \<open>multiply2\<close> is \<^verbatim>\<open>multiply\<close> on G2; \<open>pairing\<close> may raise any exception.
  \<open>sha256 m\<close> is \<^verbatim>\<open>int.from_bytes(hashlib.sha256(m).digest(), 'big')\<close>.
  In the object \<^verbatim>\<open>BLSThresholdSignature\<close>, \<open>prime\<close> is \<^verbatim>\<open>self.sss.prime\<close>.
\<close>

record ('g1, 'g2, 'gt) bn128 =
  G1 :: 'g1
  G2 :: 'g2
  Z1 :: 'g1
  curve_order :: int
  multiply :: "'g1 \<Rightarrow> int \<Rightarrow> 'g1"
  add :: "'g1 \<Rightarrow> 'g1 \<Rightarrow> 'g1"
  multiply2 :: "'g2 \<Rightarrow> int \<Rightarrow> 'g2"
  pairing :: "'g2 \<Rightarrow> 'g1 \<Rightarrow> error + 'gt"
  sha256 :: "bytes \<Rightarrow> int"

record 'g1 BLSPartialSignature =
  signer_id :: int
  signature :: 'g1

record 'g2 BLSThresholdSignature =
  threshold :: int
  num_parties :: int
  prime :: int
  master_private_key :: int
  public_key :: 'g2
  private_shares :: "SecretShare list"
  public_key_shares :: "(int \<times> 'g2) list"

definition BLSThresholdSignature_init ::
  "('g1, 'g2, 'gt) bn128 \<Rightarrow> int \<Rightarrow> int \<Rightarrow> int \<Rightarrow> (nat \<Rightarrow> int) \<Rightarrow> 'g2 BLSThresholdSignature" where
  \<comment> \<open>\<open>sk\<close> is what \<^verbatim>\<open>secrets.randbelow(curve_order)\<close> returns; the result is
      the object that \<^verbatim>\<open>__init__\<close> leaves when it returns (its closing \<^verbatim>\<open>print\<close>
      statements have returned)\<close>
  "BLSThresholdSignature_init lib t n sk rnd =
     (let shares = create_shares (curve_order lib) t n rnd sk
      in \<lparr>threshold = t, num_parties = n, prime = curve_order lib,
          master_private_key = sk,
          public_key = multiply2 lib (G2 lib) sk,
          private_shares = shares,
          public_key_shares = map (\<lambda>share. (share_x share, multiply2 lib (G2 lib) (share_y share))) shares\<rparr>)"

definition hash_to_g1 :: "('g1, 'g2, 'gt) bn128 \<Rightarrow> bytes \<Rightarrow> 'g1" where
  "hash_to_g1 lib message = multiply lib (G1 lib) (sha256 lib message mod curve_order lib)"

definition get_private_share :: "'g2 BLSThresholdSignature \<Rightarrow> int \<Rightarrow> error + SecretShare" where
  "get_private_share self party_id =
     (if party_id < 1 \<or> party_id > num_parties self then Inl UnknownParty
      else if nat (party_id - 1) < length (private_shares self)
      then Inr (private_shares self ! nat (party_id - 1))
      else Inl IndexError)"

definition get_public_key_share :: "'g2 BLSThresholdSignature \<Rightarrow> int \<Rightarrow> error + 'g2" where
  "get_public_key_share self party_id =
     (if party_id < 1 \<or> party_id > num_parties self then Inl UnknownParty
      else if nat (party_id - 1) < length (public_key_shares self)
      then Inr (snd (public_key_shares self ! nat (party_id - 1)))
      else Inl IndexError)"

definition create_partial_signature ::
  "('g1, 'g2, 'gt) bn128 \<Rightarrow> 'g2 BLSThresholdSignature \<Rightarrow> int \<Rightarrow> bytes
     \<Rightarrow> error + 'g1 BLSPartialSignature" where
  "create_partial_signature lib self party_id message =
     (case get_private_share self party_id of
        Inl e \<Rightarrow> Inl e
      | Inr private_share \<Rightarrow>
          (let h = hash_to_g1 lib message;
               partial_signature = multiply lib h (share_y private_share)
           in Inr \<lparr>signer_id = party_id, signature = partial_signature\<rparr>))"

fun combine_loop ::
  "('g1, 'g2, 'gt) bn128 \<Rightarrow> int \<Rightarrow> SecretShare list \<Rightarrow> nat \<Rightarrow> 'g1 BLSPartialSignature list \<Rightarrow> 'g1
     \<Rightarrow> error + 'g1" where
  "combine_loop lib p shares i [] combined_signature = Inr combined_signature"
| "combine_loop lib p shares i (sig # rest) combined_signature =
     (case bls_lagrange_coefficient p shares i of
        Inl e \<Rightarrow> Inl e
      | Inr coeff \<Rightarrow>
          (let weighted_sig = multiply lib (signature sig) coeff
           in combine_loop lib p shares (Suc i) rest
                (if combined_signature = Z1 lib then weighted_sig
                 else add lib combined_signature weighted_sig)))"

definition combine_signatures ::
  "('g1, 'g2, 'gt) bn128 \<Rightarrow> 'g2 BLSThresholdSignature \<Rightarrow> 'g1 BLSPartialSignature list
     \<Rightarrow> error + 'g1" where
  "combine_signatures lib self partial_sigs =
     (if int (length partial_sigs) < threshold self then Inl InsufficientSigners
      else (let selected_sigs = py_prefix (threshold self) partial_sigs;
                shares = map (\<lambda>sig. \<lparr>share_x = signer_id sig, share_y = 0\<rparr>) selected_sigs
            in combine_loop lib (prime self) shares 0 selected_sigs (Z1 lib)))"

definition verify_partial_body ::
  "('g1, 'g2, 'gt) bn128 \<Rightarrow> 'g2 BLSThresholdSignature \<Rightarrow> 'g1 BLSPartialSignature \<Rightarrow> bytes
     \<Rightarrow> error + bool" where
  "verify_partial_body lib self partial_sig message =
     (case get_public_key_share self (signer_id partial_sig) of
        Inl e \<Rightarrow> Inl e
      | Inr pk_share \<Rightarrow>
          (let h = hash_to_g1 lib message
           in (case pairing lib (G2 lib) (signature partial_sig) of
                 Inl e \<Rightarrow> Inl e
               | Inr lhs \<Rightarrow>
                   (case pairing lib pk_share h of
                      Inl e \<Rightarrow> Inl e
                    | Inr rhs \<Rightarrow> Inr (lhs = rhs)))))"

definition verify_partial_signature ::
  "('g1, 'g2, 'gt) bn128 \<Rightarrow> (error \<Rightarrow> error option) \<Rightarrow> 'g2 BLSThresholdSignature
     \<Rightarrow> 'g1 BLSPartialSignature \<Rightarrow> bytes \<Rightarrow> error + bool" where
  "verify_partial_signature lib out self partial_sig message =
     (case verify_partial_body lib self partial_sig message of
        Inr b \<Rightarrow> Inr b
      | Inl e \<Rightarrow>
          if is_Exception e
          then (case out e of None \<Rightarrow> Inr False | Some x \<Rightarrow> Inl x)
          else Inl e)"

definition verify_body ::
  "('g1, 'g2, 'gt) bn128 \<Rightarrow> 'g2 BLSThresholdSignature \<Rightarrow> 'g1 \<Rightarrow> bytes \<Rightarrow> error + bool" where
  "verify_body lib self sig message =
     (let h = hash_to_g1 lib message
      in (case pairing lib (G2 lib) sig of
            Inl e \<Rightarrow> Inl e
          | Inr lhs \<Rightarrow>
              (case pairing lib (public_key self) h of
                 Inl e \<Rightarrow> Inl e
               | Inr rhs \<Rightarrow> Inr (lhs = rhs))))"

definition verify_signature ::
  "('g1, 'g2, 'gt) bn128 \<Rightarrow> (error \<Rightarrow> error option) \<Rightarrow> 'g2 BLSThresholdSignature \<Rightarrow> 'g1 \<Rightarrow> bytes
     \<Rightarrow> error + bool" where
  "verify_signature lib out self sig message =
     (case verify_body lib self sig message of
        Inr b \<Rightarrow> Inr b
      | Inl e \<Rightarrow>
          if is_Exception e
          then (case out e of None \<Rightarrow> Inr False | Some x \<Rightarrow> Inl x)
          else Inl e)"

section \<open>Notions used in the statements and proofs\<close>

text \<open>
  \<open>is_prime\<close> is primality of the group order. \<open>peval\<close> evaluates a coefficient list
  (constant term first) over the integers; \<open>pquot\<close> divides by a linear factor,
  \<open>padd\<close>, \<open>plin\<close>, \<open>bpoly\<close> and \<open>psum\<close> build the interpolation
  polynomial. \<open>others i xs\<close> is \<open>xs\<close> without position \<open>i\<close>;
  \<open>lag_num\<close> and \<open>lag_den\<close> are the products that \<^verbatim>\<open>lagrange_coefficient\<close>
  accumulates, before reduction.
\<close>

definition is_prime :: "int \<Rightarrow> bool" where
  "is_prime p \<longleftrightarrow> 1 < p \<and> (\<forall>d\<in>{2..<p}. \<not> d dvd p)"

fun peval :: "int list \<Rightarrow> int \<Rightarrow> int" where
  "peval [] z = 0"
| "peval (c # cs) z = c + z * peval cs z"

fun pquot :: "int \<Rightarrow> int list \<Rightarrow> int list" where
  "pquot a [] = []"
| "pquot a [c] = []"
| "pquot a (c # cs) = peval cs a # pquot a cs"

definition others :: "nat \<Rightarrow> 'a list \<Rightarrow> 'a list" where
  "others i xs = take i xs @ drop (Suc i) xs"

fun padd :: "int list \<Rightarrow> int list \<Rightarrow> int list" where
  "padd [] ys = ys"
| "padd xs [] = xs"
| "padd (x # xs) (y # ys) = (x + y) # padd xs ys"

definition plin :: "int \<Rightarrow> int list \<Rightarrow> int list" where
  "plin a q = padd (0 # q) (map ((*) (- a)) q)"

definition bpoly :: "int list \<Rightarrow> int list" where
  "bpoly ys = foldr plin ys [1]"

definition psum :: "int list list \<Rightarrow> int list" where
  "psum ps = foldr padd ps []"

definition lag_num :: "int list \<Rightarrow> nat \<Rightarrow> int" where
  "lag_num xs i = prod_list (map (\<lambda>y. - y) (others i xs))"

definition lag_den :: "int list \<Rightarrow> nat \<Rightarrow> int" where
  "lag_den xs i = prod_list (map (\<lambda>y. xs ! i - y) (others i xs))"

fun excl :: "nat \<Rightarrow> nat \<Rightarrow> 'a list \<Rightarrow> 'a list" where
  "excl i j [] = []"
| "excl i j (x # xs) = (if i \<noteq> j then x # excl i (Suc j) xs else excl i (Suc j) xs)"

text \<open>
  \<open>g1_laws\<close> is the contract of the library's G1: \<open>add\<close> is commutative and
  associative with neutral element \<open>Z1\<close>, and \<open>multiply\<close> is multiplication by a
  non-negative scalar in a group whose order is \<open>curve_order\<close>. \<open>bls_coeff\<close> is the
  value of \<^verbatim>\<open>lagrange_coefficient\<close> of the BLS file on the x-values \<open>xs\<close>, and
  \<open>bls_weights\<close> the list of the weighted partial signatures that
  \<^verbatim>\<open>combine_signatures\<close> adds up.
\<close>

definition g1_laws :: "('g1, 'g2, 'gt) bn128 \<Rightarrow> bool" where
  "g1_laws lib \<longleftrightarrow>
     (\<forall>P Q. add lib P Q = add lib Q P) \<and>
     (\<forall>P Q R. add lib (add lib P Q) R = add lib P (add lib Q R)) \<and>
     (\<forall>P. add lib (Z1 lib) P = P) \<and>
     (\<forall>P. multiply lib P 0 = Z1 lib) \<and>
     (\<forall>P a b. 0 \<le> a \<longrightarrow> 0 \<le> b
        \<longrightarrow> multiply lib P (a + b) = add lib (multiply lib P a) (multiply lib P b)) \<and>
     (\<forall>P a b. 0 \<le> a \<longrightarrow> 0 \<le> b
        \<longrightarrow> multiply lib (multiply lib P a) b = multiply lib P (a * b)) \<and>
     (\<forall>P a. 0 \<le> a \<longrightarrow> multiply lib P (a mod curve_order lib) = multiply lib P a)"

definition bls_coeff :: "int \<Rightarrow> int list \<Rightarrow> nat \<Rightarrow> int" where
  "bls_coeff p xs i = (lag_num xs i * prime_field_inv (lag_den xs i) p) mod p"

definition bls_weights ::
  "('g1, 'g2, 'gt) bn128 \<Rightarrow> int \<Rightarrow> 'g1 BLSPartialSignature list \<Rightarrow> 'g1 list" where
  "bls_weights lib p sel =
     map (\<lambda>k. multiply lib (signature (sel ! k)) (bls_coeff p (map signer_id sel) k))
         [0..<length sel]"

section \<open>Small instances\<close>

text \<open>
  Instances of the library parameters on which the theorems below are run: the group of
  integers modulo 5 in the place of the curve groups (generator 1, a product in the place of
  the pairing, which is made to raise on the neutral element of G1), and the length of the
  message plus 3 in the place of SHA-256. Both contexts are the 2-of-3 set-up with master
  secret 4 and random coefficient 3, that is the polynomial \<open>4 + 3x\<close> modulo 5.
  \<open>out_ok\<close> and \<open>out_ascii\<close> are two behaviours of the \<^verbatim>\<open>print\<close> of the
  verification handlers: one that returns, and one on a stream that cannot encode the
  handlers' text.
\<close>

definition toy_curve :: "int secp256k1" where
  "toy_curve = \<lparr>generator = 1, order = 5, INFINITY = 0,
     scalar_mul = (\<lambda>k P. (k * P) mod 5), point_add = (\<lambda>P Q. (P + Q) mod 5),
     point_x = (\<lambda>P. if P = 0 then None else Some (P * P - 1)),
     ec_sha256 = (\<lambda>m. int (length m) + 3)\<rparr>"

definition toy_ts :: "int ThresholdSignature" where
  "toy_ts = ThresholdSignature_init toy_curve 2 3 4 (\<lambda>k. 3)"

definition toy_bn128 :: "(5, 5, 5) bn128" where
  "toy_bn128 = \<lparr>G1 = 1, G2 = 1, Z1 = 0, curve_order = 5,
     multiply = (\<lambda>P n. P * of_int n), add = (\<lambda>P Q. P + Q),
     multiply2 = (\<lambda>P n. P * of_int n),
     pairing = (\<lambda>Q P. if P = 0 then Inl LibraryError else Inr (Q * P)),
     sha256 = (\<lambda>m. int (length m) + 3)\<rparr>"

definition toy_bls :: "5 BLSThresholdSignature" where
  "toy_bls = BLSThresholdSignature_init toy_bn128 2 3 4 (\<lambda>k. 3)"

definition out_ok :: "error \<Rightarrow> error option" where
  \<comment> \<open>a \<^verbatim>\<open>print\<close> that returns\<close>
  "out_ok e = None"

definition out_ascii :: "error \<Rightarrow> error option" where
  \<comment> \<open>a \<^verbatim>\<open>print\<close> to a stream that cannot encode the handlers' text\<close>
  "out_ascii e = Some UnicodeEncodeError"

section \<open>Auxiliary facts\<close>

subsection \<open>Primes, polynomials and Lagrange interpolation at zero\<close>

lemma is_prime_5: "is_prime 5" by code_simp

lemma is_prime_7: "is_prime 7" by code_simp

lemma prime_coprime:
  assumes "is_prime p" "\<not> p dvd a"
  shows "coprime p a"
proof -
  let ?g = "gcd p a"
  have g0: "0 \<le> ?g" by simp
  have gp: "?g dvd p" by simp
  have ga: "?g dvd a" by simp
  have p1: "1 < p" using assms(1) by (simp add: is_prime_def)
  have "?g \<le> p" using gp p1 by (simp add: zdvd_imp_le)
  moreover have "?g \<noteq> 0" using p1 by simp
  moreover have "?g \<noteq> p" using ga assms(2) by metis
  moreover have "\<not> (2 \<le> ?g \<and> ?g < p)" using assms(1) gp by (auto simp: is_prime_def)
  ultimately have "?g = 1" using g0 by linarith
  then show ?thesis by (simp add: coprime_iff_gcd_eq_1)
qed

lemma prime_dvd_mult:
  assumes "is_prime p" "p dvd a * b"
  shows "p dvd a \<or> p dvd b"
proof (cases "p dvd a")
  case True then show ?thesis by simp
next
  case False
  then have "coprime p a" using assms(1) by (rule prime_coprime[rotated])
  then show ?thesis using assms(2) by (simp add: coprime_dvd_mult_right_iff)
qed

lemma length_pquot: "length (pquot a cs) = length cs - 1"
  by (induction a cs rule: pquot.induct) auto

lemma peval_pquot: "peval cs z = peval cs a + (z - a) * peval (pquot a cs) z"
proof (induction a cs rule: pquot.induct)
  case (1 a) show ?case by simp
next
  case (2 a c) show ?case by simp
next
  case (3 a c d ds)
  have "peval (c # d # ds) z = c + z * peval (d # ds) z" by simp
  also have "\<dots> = c + z * (peval (d # ds) a + (z - a) * peval (pquot a (d # ds)) z)"
    using 3 by simp
  also have "\<dots> = peval (c # d # ds) a
       + (z - a) * (peval (d # ds) a + z * peval (pquot a (d # ds)) z)"
    by (simp add: algebra_simps)
  finally show ?case by simp
qed

lemma pquot_zero:
  "p dvd peval cs a \<Longrightarrow> \<forall>q\<in>set (pquot a cs). p dvd q \<Longrightarrow> \<forall>c\<in>set cs. (p::int) dvd c"
proof (induction a cs rule: pquot.induct)
  case (1 a) then show ?case by simp
next
  case (2 a c) then show ?case by simp
next
  case (3 a c d ds)
  have q: "p dvd peval (d # ds) a" using 3(3) by simp
  have "\<forall>q\<in>set (pquot a (d # ds)). p dvd q" using 3(3) by simp
  then have r: "\<forall>c\<in>set (d # ds). p dvd c" using 3(1) q by blast
  have "c = peval (c # d # ds) a - a * peval (d # ds) a" by simp
  moreover have "p dvd peval (c # d # ds) a - a * peval (d # ds) a"
    using 3(2) q by (intro dvd_diff dvd_mult) auto
  ultimately have "p dvd c" by metis
  then show ?case using r by simp
qed

lemma all_dvd_peval: "\<forall>c\<in>set cs. (p::int) dvd c \<Longrightarrow> p dvd peval cs z"
  by (induction cs) auto

lemma roots_bound:
  assumes pr: "is_prime p"
  shows "distinct (map (\<lambda>a. a mod p) as) \<Longrightarrow> length cs \<le> length as
     \<Longrightarrow> \<forall>a\<in>set as. p dvd peval cs a \<Longrightarrow> \<forall>c\<in>set cs. p dvd c"
proof (induction as arbitrary: cs)
  case Nil then show ?case by simp
next
  case (Cons a as)
  let ?q = "pquot a cs"
  have pa: "p dvd peval cs a" using Cons.prems(3) by simp
  have "\<forall>b\<in>set as. p dvd peval ?q b"
  proof
    fix b assume b: "b \<in> set as"
    have "p dvd peval cs b" using Cons.prems(3) b by simp
    then have "p dvd peval cs a + (b - a) * peval ?q b" using peval_pquot[of cs b a] by simp
    then have "p dvd (b - a) * peval ?q b" using pa by (simp add: dvd_add_right_iff)
    moreover have "\<not> p dvd (b - a)"
    proof
      assume "p dvd (b - a)"
      then have "b mod p = a mod p" by (simp add: mod_eq_dvd_iff)
      moreover have "a mod p \<notin> (\<lambda>a. a mod p) ` set as" using Cons.prems(1) by simp
      ultimately show False using b by (metis imageI)
    qed
    ultimately show "p dvd peval ?q b" using prime_dvd_mult[OF pr] by blast
  qed
  moreover have "length ?q \<le> length as" using Cons.prems(2) by (simp add: length_pquot)
  moreover have "distinct (map (\<lambda>a. a mod p) as)" using Cons.prems(1) by simp
  ultimately have "\<forall>q\<in>set ?q. p dvd q" using Cons.IH by blast
  then show ?case using pa pquot_zero by blast
qed

lemma peval_padd: "peval (padd xs ys) z = peval xs z + peval ys z"
  by (induction xs ys rule: padd.induct) (auto simp: algebra_simps)

lemma length_padd: "length (padd xs ys) = max (length xs) (length ys)"
  by (induction xs ys rule: padd.induct) auto

lemma peval_smult: "peval (map ((*) c) q) z = c * peval q z"
  by (induction q) (auto simp: algebra_simps)

lemma peval_plin: "peval (plin a q) z = (z - a) * peval q z"
  by (simp add: plin_def peval_padd peval_smult algebra_simps)

lemma length_plin: "length (plin a q) = Suc (length q)"
  by (simp add: plin_def length_padd)

lemma peval_bpoly: "peval (bpoly ys) z = prod_list (map (\<lambda>y. z - y) ys)"
  by (induction ys) (auto simp: bpoly_def peval_plin)

lemma length_bpoly: "length (bpoly ys) = Suc (length ys)"
  by (induction ys) (auto simp: bpoly_def length_plin)

lemma peval_psum: "peval (psum ps) z = sum_list (map (\<lambda>q. peval q z) ps)"
  by (induction ps) (auto simp: psum_def peval_padd)

lemma length_psum: "\<forall>q\<in>set ps. length q \<le> n \<Longrightarrow> length (psum ps) \<le> n"
  by (induction ps) (auto simp: psum_def length_padd)

lemma length_others: "i < length xs \<Longrightarrow> length (others i xs) = length xs - 1"
  by (simp add: others_def)

lemma nth_in_others:
  assumes "k < length xs" "i < length xs" "k \<noteq> i"
  shows "xs ! k \<in> set (others i xs)"
proof (cases "k < i")
  case True
  then have "xs ! k = take i xs ! k" by simp
  moreover have "k < length (take i xs)" using True assms(2) by simp
  ultimately have "xs ! k \<in> set (take i xs)" by (metis nth_mem)
  then show ?thesis by (simp add: others_def)
next
  case False
  then have ki: "Suc i \<le> k" using assms(3) by simp
  then have "xs ! k = drop (Suc i) xs ! (k - Suc i)" using assms(1) by simp
  moreover have "k - Suc i < length (drop (Suc i) xs)" using ki assms(1) by simp
  ultimately have "xs ! k \<in> set (drop (Suc i) xs)" by (metis nth_mem)
  then show ?thesis by (simp add: others_def)
qed

lemma prod_list_zero_mem: "(0::int) \<in> set xs \<Longrightarrow> prod_list xs = 0"
  by (induction xs) auto

lemma lagrange_at_zero:
  assumes pr: "is_prime p"
    and dist: "distinct (map (\<lambda>a. a mod p) xs)"
    and len: "length cs \<le> length xs"
    and v: "\<forall>k<length xs. (v k * lag_den xs k) mod p = peval cs (xs ! k) mod p"
  shows "(\<Sum>i<length xs. v i * lag_num xs i) mod p = peval cs 0 mod p"
proof -
  let ?t = "length xs"
  let ?B = "\<lambda>i. map ((*) (v i)) (bpoly (others i xs))"
  let ?I = "psum (map ?B [0..<?t])"
  let ?g = "padd cs (map ((*) (- 1)) ?I)"
  have evalI: "peval ?I z = (\<Sum>i<?t. v i * prod_list (map (\<lambda>y. z - y) (others i xs)))" for z
    by (simp add: peval_psum peval_smult peval_bpoly comp_def sum_list_sum_nth atLeast0LessThan)
  have evalg: "peval ?g z = peval cs z - (\<Sum>i<?t. v i * prod_list (map (\<lambda>y. z - y) (others i xs)))" for z
    using evalI[of z] by (simp add: peval_padd peval_smult)
  have lenI: "length ?I \<le> ?t"
  proof (rule length_psum, rule ballI)
    fix q assume "q \<in> set (map ?B [0..<?t])"
    then obtain i where i: "i < ?t" and q: "q = ?B i" by auto
    show "length q \<le> ?t" using i q by (simp add: length_bpoly length_others)
  qed
  have leng: "length ?g \<le> ?t" using len lenI by (simp add: length_padd)
  have roots: "\<forall>a\<in>set xs. p dvd peval ?g a"
  proof
    fix a assume "a \<in> set xs"
    then obtain k where k: "k < ?t" and a: "a = xs ! k" by (metis in_set_conv_nth)
    have z: "prod_list (map (\<lambda>y. xs ! k - y) (others i xs)) = 0" if "i < ?t" "i \<noteq> k" for i
    proof -
      have "xs ! k \<in> set (others i xs)" using nth_in_others[OF k that(1)] that(2) by simp
      then have "0 \<in> set (map (\<lambda>y. xs ! k - y) (others i xs))" by force
      then show ?thesis by (rule prod_list_zero_mem)
    qed
    have "(\<Sum>i<?t. v i * prod_list (map (\<lambda>y. xs ! k - y) (others i xs)))
        = (\<Sum>i<?t. if i = k then v k * lag_den xs k else 0)"
      by (rule sum.cong) (auto simp: z lag_den_def)
    also have "\<dots> = v k * lag_den xs k" using k by simp
    finally have "peval ?g a = peval cs (xs ! k) - v k * lag_den xs k"
      using evalg[of a] a by simp
    moreover have "peval cs (xs ! k) mod p = (v k * lag_den xs k) mod p" using v k by simp
    ultimately show "p dvd peval ?g a" by (simp add: mod_eq_dvd_iff)
  qed
  have "\<forall>c\<in>set ?g. p dvd c" by (rule roots_bound[OF pr dist leng roots])
  then have "p dvd peval ?g 0" by (rule all_dvd_peval)
  then have "p dvd peval cs 0 - (\<Sum>i<?t. v i * lag_num xs i)"
    using evalg[of 0] by (simp add: lag_num_def)
  then have "peval cs 0 mod p = (\<Sum>i<?t. v i * lag_num xs i) mod p"
    by (simp add: mod_eq_dvd_iff)
  then show ?thesis by simp
qed

lemma prime_field_inv_loop_correct:
  "(lm * a) mod n = low mod n \<Longrightarrow> (hm * a) mod n = high mod n \<Longrightarrow> gcd low high = 1
   \<Longrightarrow> 0 \<le> low \<Longrightarrow> low < high \<Longrightarrow> 1 < high
   \<Longrightarrow> (prime_field_inv_loop lm low hm high * a) mod n = 1 mod n"
proof (induction lm low hm high rule: prime_field_inv_loop.induct)
  case (1 lm low hm high)
  show ?case
  proof (cases "1 < low")
    case True
    let ?r = "high div low"
    have new: "high - low * ?r = high mod low" by (simp add: minus_mult_div_eq_mod)
    have a1: "((hm - lm * ?r) * a) mod n = (high - low * ?r) mod n"
    proof -
      have "(hm * a - (lm * a) * ?r) mod n = (high - low * ?r) mod n"
        by (intro mod_diff_cong mod_mult_cong "1.prems"(1,2) refl)
      then show ?thesis by (simp add: algebra_simps)
    qed
    have a3: "gcd (high - low * ?r) low = 1"
      using "1.prems"(3) unfolding new by (metis gcd_red_int gcd.commute)
    have a4: "0 \<le> high - low * ?r" "high - low * ?r < low"
      using True by (simp_all add: new)
    have "(prime_field_inv_loop (hm - lm * ?r) (high - low * ?r) lm low * a) mod n = 1 mod n"
      using "1.IH"[OF True refl a1 "1.prems"(1) a3 a4 True] .
    then show ?thesis using True by (subst prime_field_inv_loop.simps) (simp add: Let_def)
  next
    case False
    have "low \<noteq> 0" using "1.prems"(3,6) by auto
    then have "low = 1" using False "1.prems"(4) by linarith
    then show ?thesis using "1.prems"(1) by (subst prime_field_inv_loop.simps) simp
  qed
qed

lemma prime_field_inv_correct:
  assumes "is_prime p" "\<not> p dvd a"
  shows "(prime_field_inv a p * a) mod p = 1"
proof -
  have p1: "1 < p" using assms(1) by (simp add: is_prime_def)
  have nz: "a mod p \<noteq> 0" using assms(2) by (simp add: dvd_eq_mod_eq_0)
  have "gcd p a = 1" using prime_coprime[OF assms] by (simp add: coprime_iff_gcd_eq_1)
  then have cop: "gcd (a mod p) p = 1" by (metis gcd_red_int gcd.commute)
  have "(prime_field_inv_loop 1 (a mod p) 0 p * a) mod p = 1 mod p"
    by (rule prime_field_inv_loop_correct) (use p1 cop in simp_all)
  then show ?thesis using nz p1 by (simp add: prime_field_inv_def Let_def mod_simps)
qed

lemma prime_field_inv_zero: "p dvd a \<Longrightarrow> prime_field_inv a p = 0"
  by (simp add: prime_field_inv_def dvd_eq_mod_eq_0)

lemma prime_field_inv_range: "0 < p \<Longrightarrow> 0 \<le> prime_field_inv a p \<and> prime_field_inv a p < p"
  by (simp add: prime_field_inv_def Let_def)

lemma inverse_loop_correct:
  "inverse_loop u1 v1 u3 v3 = (r1, r3) \<Longrightarrow> (u1 * u) mod v = u3 mod v \<Longrightarrow> (v1 * u) mod v = v3 mod v
   \<Longrightarrow> gcd u3 v3 = 1 \<Longrightarrow> 0 \<le> u3 \<Longrightarrow> 0 \<le> v3
   \<Longrightarrow> r3 = 1 \<and> (r1 * u) mod v = 1 mod v"
proof (induction u1 v1 u3 v3 rule: inverse_loop.induct)
  case (1 u1 v1 u3 v3)
  show ?case
  proof (cases "0 < v3")
    case True
    let ?q = "u3 div v3"
    have new: "u3 - v3 * ?q = u3 mod v3" by (simp add: minus_mult_div_eq_mod)
    have step: "inverse_loop v1 (u1 - v1 * ?q) v3 (u3 - v3 * ?q) = (r1, r3)"
      using "1.prems"(1) True by (subst (asm) inverse_loop.simps) (simp add: Let_def)
    have a1: "((u1 - v1 * ?q) * u) mod v = (u3 - v3 * ?q) mod v"
    proof -
      have "(u1 * u - (v1 * u) * ?q) mod v = (u3 - v3 * ?q) mod v"
        by (intro mod_diff_cong mod_mult_cong "1.prems"(2,3) refl)
      then show ?thesis by (simp add: algebra_simps)
    qed
    have a3: "gcd v3 (u3 - v3 * ?q) = 1"
      using "1.prems"(4) unfolding new by (metis gcd_red_int)
    have a4: "0 \<le> u3 - v3 * ?q" using True by (simp add: new)
    show ?thesis
      using "1.IH"[OF True refl step "1.prems"(3) a1 a3] True a4 by simp
  next
    case False
    then have v0: "v3 = 0" using "1.prems"(6) by simp
    have res: "r1 = u1" "r3 = u3"
      using "1.prems"(1) False by (subst (asm) inverse_loop.simps, simp)+
    have "u3 = 1" using "1.prems"(4,5) v0 by simp
    then show ?thesis using res "1.prems"(2) by simp
  qed
qed

lemma inverse_lift_mod: "0 < v \<Longrightarrow> inverse_lift u1 v mod v = u1 mod v"
proof (induction u1 v rule: inverse_lift.induct)
  case (1 u1 v)
  show ?case
  proof (cases "u1 < 0")
    case True
    then have "inverse_lift u1 v = inverse_lift (u1 + v) v"
      using "1.prems" by (subst inverse_lift.simps) simp
    then show ?thesis using "1.IH" True "1.prems" by simp
  next
    case False
    then show ?thesis by (subst inverse_lift.simps) simp
  qed
qed

lemma inverse_mod_correct:
  assumes "is_prime p" "\<not> p dvd u" "0 \<le> u"
  shows "\<exists>w. inverse_mod u p = Inr w \<and> (w * u) mod p = 1"
proof -
  have p1: "1 < p" using assms(1) by (simp add: is_prime_def)
  obtain r1 r3 where r: "inverse_loop 1 0 u p = (r1, r3)" by fastforce
  have cop: "gcd u p = 1"
    using prime_coprime[OF assms(1,2)] by (simp add: gcd.commute coprime_iff_gcd_eq_1)
  have "r3 = 1 \<and> (r1 * u) mod p = 1 mod p"
    by (rule inverse_loop_correct[OF r]) (use p1 cop assms(3) in simp_all)
  then have r3: "r3 = 1" and r1: "(r1 * u) mod p = 1" using p1 by simp_all
  have "(inverse_lift r1 p * u) mod p = ((inverse_lift r1 p mod p) * u) mod p"
    by (simp add: mod_simps)
  also have "\<dots> = (r1 * u) mod p" using p1 by (simp add: inverse_lift_mod mod_simps)
  finally have "(inverse_lift r1 p * u) mod p = 1" using r1 by simp
  then show ?thesis using p1 r r3 by (simp add: inverse_mod_def)
qed

lemma evaluate_loop_eq:
  "evaluate_loop p x i cs res = (if cs = [] then res else (res + x ^ i * peval cs x) mod p)"
proof (induction cs arbitrary: i res)
  case Nil show ?case by simp
next
  case (Cons c cs)
  have h: "(res + c * (x ^ i mod p)) mod p = (res + c * x ^ i) mod p"
    by (intro mod_add_cong mod_mult_cong) simp_all
  show ?case
  proof (cases "cs = []")
    case True
    then show ?thesis using h by (simp add: algebra_simps)
  next
    case False
    have "evaluate_loop p x i (c # cs) res
        = ((res + c * (x ^ i mod p)) mod p + x ^ Suc i * peval cs x) mod p"
      using Cons.IH False by simp
    also have "\<dots> = (res + c * x ^ i + x ^ Suc i * peval cs x) mod p"
      using h by (metis mod_add_left_eq)
    also have "\<dots> = (res + x ^ i * peval (c # cs) x) mod p"
      by (simp add: algebra_simps)
    finally show ?thesis by simp
  qed
qed

lemma evaluate_polynomial_eq: "evaluate_polynomial p cs x = peval cs x mod p"
  by (simp add: evaluate_polynomial_def evaluate_loop_eq)

lemma excl_gt: "i < j \<Longrightarrow> excl i j xs = xs"
  by (induction xs arbitrary: j) auto

lemma excl_others: "j \<le> i \<Longrightarrow> excl i j xs = others (i - j) xs"
proof (induction xs arbitrary: j)
  case Nil show ?case by (simp add: others_def)
next
  case (Cons x xs)
  show ?case
  proof (cases "i = j")
    case True
    then show ?thesis by (simp add: excl_gt others_def)
  next
    case False
    then have lt: "Suc j \<le> i" using Cons.prems by simp
    then have "i - j = Suc (i - Suc j)" by simp
    then show ?thesis using Cons.IH[OF lt] False by (simp add: others_def)
  qed
qed

lemma lagrange_loop_eq:
  "lagrange_loop p xi i j shares (n, d) = (n', d') \<Longrightarrow>
     n' mod p = (n * prod_list (map (\<lambda>s. - share_x s) (excl i j shares))) mod p \<and>
     d' mod p = (d * prod_list (map (\<lambda>s. xi - share_x s) (excl i j shares))) mod p"
proof (induction shares arbitrary: j n d)
  case Nil then show ?case by simp
next
  case (Cons s shares)
  show ?case
  proof (cases "i = j")
    case True
    then show ?thesis using Cons.IH[of "Suc j" n d] Cons.prems by simp
  next
    case False
    then have "lagrange_loop p xi i (Suc j) shares
        ((n * (- share_x s)) mod p, (d * (xi - share_x s)) mod p) = (n', d')"
      using Cons.prems by simp
    from Cons.IH[OF this] show ?thesis using False
      by (simp add: mod_simps mult.assoc)
  qed
qed

lemma map_others: "map f (others i xs) = others i (map f xs)"
  by (simp add: others_def take_map drop_map)

lemma lagrange_loop_num_den:
  assumes "lagrange_loop p (share_x (shares ! i)) i 0 shares (1, 1) = (n', d')" "i < length shares"
  shows "n' mod p = lag_num (map share_x shares) i mod p"
    and "d' mod p = lag_den (map share_x shares) i mod p"
proof -
  have e: "excl i 0 shares = others i shares" by (simp add: excl_others)
  have m1: "map (\<lambda>s. - share_x s) (others i shares) = map (\<lambda>y. - y) (others i (map share_x shares))"
    by (simp add: map_others[symmetric] comp_def)
  have m2: "map (\<lambda>s. c - share_x s) (others i shares) = map (\<lambda>y. c - y) (others i (map share_x shares))" for c
    by (simp add: map_others[symmetric] comp_def)
  show "n' mod p = lag_num (map share_x shares) i mod p"
    using lagrange_loop_eq[OF assms(1)] by (simp add: e m1 lag_num_def)
  show "d' mod p = lag_den (map share_x shares) i mod p"
    using lagrange_loop_eq[OF assms(1)] assms(2) by (simp add: e m2 lag_den_def)
qed

lemma prime_dvd_prod_list:
  assumes "is_prime p"
  shows "p dvd prod_list ys \<Longrightarrow> \<exists>y\<in>set ys. p dvd y"
proof (induction ys)
  case Nil
  then show ?case using assms by (simp add: is_prime_def)
next
  case (Cons y ys)
  then show ?case using prime_dvd_mult[OF assms, of y "prod_list ys"] by auto
qed

lemma mem_others_nth:
  assumes "y \<in> set (others i xs)"
  shows "\<exists>j<length xs. j \<noteq> i \<and> y = xs ! j"
proof -
  from assms have "y \<in> set (take i xs) \<or> y \<in> set (drop (Suc i) xs)" by (simp add: others_def)
  then show ?thesis
  proof
    assume "y \<in> set (take i xs)"
    then obtain j where "j < length (take i xs)" "take i xs ! j = y" by (metis in_set_conv_nth)
    then show ?thesis by (intro exI[of _ j]) auto
  next
    assume "y \<in> set (drop (Suc i) xs)"
    then obtain j where j: "j < length (drop (Suc i) xs)" "drop (Suc i) xs ! j = y"
      by (metis in_set_conv_nth)
    then show ?thesis by (intro exI[of _ "Suc i + j"]) auto
  qed
qed

lemma lag_den_nonzero:
  assumes pr: "is_prime p" and dist: "distinct (map (\<lambda>a. a mod p) xs)" and i: "i < length xs"
  shows "\<not> p dvd lag_den xs i"
proof
  assume a: "p dvd lag_den xs i"
  have "\<exists>d\<in>set (map (\<lambda>y. xs ! i - y) (others i xs)). p dvd d"
    by (rule prime_dvd_prod_list[OF pr]) (use a in \<open>simp only: lag_den_def\<close>)
  then obtain d where d: "d \<in> set (map (\<lambda>y. xs ! i - y) (others i xs))" "p dvd d" ..
  from d(1) obtain y where y: "y \<in> set (others i xs)" "d = xs ! i - y"
    by (auto simp: image_iff)
  from mem_others_nth[OF y(1)] obtain j where j: "j < length xs" "j \<noteq> i" "y = xs ! j"
    by blast
  have "p dvd xs ! i - xs ! j" using d(2) y(2) j(3) by simp
  then have "(xs ! i) mod p = (xs ! j) mod p" by (simp only: mod_eq_dvd_iff)
  then have "map (\<lambda>a. a mod p) xs ! i = map (\<lambda>a. a mod p) xs ! j"
    using i j(1) by (simp only: nth_map)
  moreover have "i < length (map (\<lambda>a. a mod p) xs)" "j < length (map (\<lambda>a. a mod p) xs)"
    using i j(1) by simp_all
  ultimately have "i = j" using nth_eq_iff_index_eq[OF dist] by blast
  then show False using j(2) by simp
qed

lemma lagrange_loop_nonneg:
  "lagrange_loop p xi i j shares (n, d) = (n', d') \<Longrightarrow> 0 < p \<Longrightarrow> 0 \<le> n \<Longrightarrow> 0 \<le> d
     \<Longrightarrow> 0 \<le> n' \<and> 0 \<le> d'"
proof (induction shares arbitrary: j n d)
  case Nil then show ?case by simp
next
  case (Cons s shares)
  show ?case
  proof (cases "i = j")
    case True
    then show ?thesis using Cons.IH[of "Suc j" n d] Cons.prems by simp
  next
    case False
    then have "lagrange_loop p xi i (Suc j) shares
        ((n * (- share_x s)) mod p, (d * (xi - share_x s)) mod p) = (n', d')"
      using Cons.prems by simp
    from Cons.IH[OF this] show ?thesis using Cons.prems(2) by simp
  qed
qed

lemma ecdsa_lagrange_coefficient_ok:
  assumes pr: "is_prime p" and dist: "distinct (map (\<lambda>a. a mod p) (map share_x shares))"
    and i: "i < length shares"
  shows "\<exists>w. ecdsa_lagrange_coefficient p shares i = Inr ((lag_num (map share_x shares) i * w) mod p)
           \<and> (w * lag_den (map share_x shares) i) mod p = 1"
proof -
  let ?xs = "map share_x shares"
  have p1: "1 < p" using pr by (simp add: is_prime_def)
  obtain n' d' where l: "lagrange_loop p (share_x (shares ! i)) i 0 shares (1, 1) = (n', d')"
    by fastforce
  have n: "n' mod p = lag_num ?xs i mod p" and d: "d' mod p = lag_den ?xs i mod p"
    using lagrange_loop_num_den[OF l i] by simp_all
  have d0: "0 \<le> d'" using lagrange_loop_nonneg[OF l] p1 by simp
  have "\<not> p dvd lag_den ?xs i" using lag_den_nonzero[OF pr dist] i by simp
  then have "\<not> p dvd d'" using d by (simp add: dvd_eq_mod_eq_0)
  then obtain w where w: "inverse_mod d' p = Inr w" "(w * d') mod p = 1"
    using inverse_mod_correct[OF pr _ d0] by blast
  have "(w * lag_den ?xs i) mod p = (w * d') mod p"
    by (intro mod_mult_cong refl d[symmetric])
  moreover have "(n' * w) mod p = (lag_num ?xs i * w) mod p"
    by (intro mod_mult_cong refl n)
  ultimately show ?thesis using l i w
    by (intro exI[of _ w]) (simp add: ecdsa_lagrange_coefficient_def)
qed

lemma reconstruct_loop_eq:
  assumes c: "\<forall>k<length sel. ecdsa_lagrange_coefficient p sel k = Inr (c k)"
  shows "rest = drop i sel \<Longrightarrow>
     reconstruct_loop p sel i rest secret =
       Inr (if rest = [] then secret
            else (secret + (\<Sum>k = i..<length sel. share_y (sel ! k) * c k)) mod p)"
proof (induction rest arbitrary: i secret)
  case Nil show ?case by simp
next
  case (Cons s rest)
  have i: "i < length sel" using Cons.prems by (metis drop_all list.distinct(1) not_le)
  have s: "s = sel ! i" and r: "rest = drop (Suc i) sel"
    using Cons.prems i by (metis Cons_nth_drop_Suc list.inject)+
  have ci: "ecdsa_lagrange_coefficient p sel i = Inr (c i)" using c i by simp
  let ?f = "\<lambda>k. share_y (sel ! k) * c k"
  have split: "(\<Sum>k = i..<length sel. ?f k) = ?f i + (\<Sum>k = Suc i..<length sel. ?f k)"
    using i by (simp add: sum.atLeast_Suc_lessThan)
  show ?case
  proof (cases "rest = []")
    case True
    then have "Suc i \<ge> length sel" using r by simp
    then have "(\<Sum>k = Suc i..<length sel. ?f k) = 0" by simp
    then show ?thesis using True ci s split by simp
  next
    case False
    have "reconstruct_loop p sel i (s # rest) secret
        = Inr (((secret + ?f i) mod p + (\<Sum>k = Suc i..<length sel. ?f k)) mod p)"
      using Cons.IH[OF r] False ci s by simp
    also have "((secret + ?f i) mod p + (\<Sum>k = Suc i..<length sel. ?f k)) mod p
        = (secret + (\<Sum>k = i..<length sel. ?f k)) mod p"
      unfolding split by (simp add: mod_simps add.assoc)
    finally show ?thesis by simp
  qed
qed

lemma mod_sum_cong:
  assumes "\<And>k. k \<in> A \<Longrightarrow> f k mod p = g k mod (p::int)"
  shows "sum f A mod p = sum g A mod p"
proof -
  have "sum f A mod p = (\<Sum>k\<in>A. f k mod p) mod p" by (simp add: mod_sum_eq)
  also have "\<dots> = (\<Sum>k\<in>A. g k mod p) mod p" using assms by simp
  also have "\<dots> = sum g A mod p" by (simp add: mod_sum_eq)
  finally show ?thesis .
qed

subsection \<open>The contexts and the small instances\<close>

lemma toy_ts_simps:
  "ts_threshold toy_ts = 2" "ts_num_parties toy_ts = 3" "ts_prime toy_ts = 5"
  "ts_public_key toy_ts = 4" "shared_k toy_ts = None"
  by (simp_all add: toy_ts_def ThresholdSignature_init_def toy_curve_def)

lemma toy_ts_shares:
  "ts_private_shares toy_ts
     = [\<lparr>share_x = 1, share_y = 2\<rparr>, \<lparr>share_x = 2, share_y = 0\<rparr>, \<lparr>share_x = 3, share_y = 3\<rparr>]"
  by code_simp

lemma toy_bls_simps:
  "threshold toy_bls = 2" "num_parties toy_bls = 3" "prime toy_bls = 5"
  "master_private_key toy_bls = 4"
  by (simp_all add: toy_bls_def BLSThresholdSignature_init_def toy_bn128_def Let_def)

lemma toy_bls_shares:
  "private_shares toy_bls
     = [\<lparr>share_x = 1, share_y = 2\<rparr>, \<lparr>share_x = 2, share_y = 0\<rparr>, \<lparr>share_x = 3, share_y = 3\<rparr>]"
  by code_simp

lemma ts_verify_in_range:
  assumes pr: "is_prime (ts_prime self)"
    and inf: "\<forall>P. point_x curve P = None \<longleftrightarrow> P = INFINITY curve"
    and rg: "1 \<le> r" "r < ts_prime self" "1 \<le> s" "s < ts_prime self"
  shows "\<exists>w. (w * s) mod ts_prime self = 1 \<and>
           (let e = ec_sha256 curve message mod ts_prime self;
                u1 = (e * w) mod ts_prime self;
                u2 = (r * w) mod ts_prime self;
                P = point_add curve (scalar_mul curve u1 (generator curve))
                                    (scalar_mul curve u2 (ts_public_key self))
            in ts_verify_signature curve out self (SigPair r s) message
                 = (if P = INFINITY curve
                    then (case out TypeError of None \<Rightarrow> Inr False | Some x \<Rightarrow> Inl x)
                    else Inr (the (point_x curve P) mod ts_prime self = r)))"
proof -
  let ?p = "ts_prime self"
  have "\<not> ?p dvd s" using rg(3,4) by (simp add: zdvd_not_zless)
  then obtain w where w: "inverse_mod s ?p = Inr w" "(w * s) mod ?p = 1"
    using inverse_mod_correct[OF pr, of s] rg(3) by auto
  let ?P = "point_add curve
        (scalar_mul curve ((ec_sha256 curve message mod ?p * w) mod ?p) (generator curve))
        (scalar_mul curve ((r * w) mod ?p) (ts_public_key self))"
  have "ts_verify_signature curve out self (SigPair r s) message
      = (if ?P = INFINITY curve
         then (case out TypeError of None \<Rightarrow> Inr False | Some x \<Rightarrow> Inl x)
         else Inr (the (point_x curve ?P) mod ?p = r))"
  proof (cases "point_x curve ?P")
    case None
    then have "?P = INFINITY curve" using inf by simp
    then show ?thesis using None rg w(1)
      by (simp add: ts_verify_signature_def ts_verify_body_def Let_def)
  next
    case (Some px)
    then have "?P \<noteq> INFINITY curve" using inf by (metis option.distinct(1))
    then show ?thesis using Some rg w(1)
      by (auto simp add: ts_verify_signature_def ts_verify_body_def Let_def)
  qed
  then show ?thesis using w(2) by (intro exI[of _ w]) (simp add: Let_def)
qed

lemma inverse_mod_error: "inverse_mod u v = Inl e \<Longrightarrow> is_Exception e"
  by (auto simp add: inverse_mod_def split: if_splits prod.splits)

lemma ts_verify_body_error:
  "ts_verify_body curve self (SigPair r s) message = Inl e \<Longrightarrow> is_Exception e"
  by (auto simp add: ts_verify_body_def Let_def inverse_mod_error
        split: if_splits sum.splits option.splits)

lemma verify_body_error:
  "verify_body lib self sig message = Inl e \<Longrightarrow> \<exists>Q P. pairing lib Q P = Inl e"
  by (auto simp add: verify_body_def Let_def split: sum.splits)

lemma verify_partial_body_error:
  "verify_partial_body lib self partial_sig message = Inl e
     \<Longrightarrow> e = UnknownParty \<or> e = IndexError \<or> (\<exists>Q P. pairing lib Q P = Inl e)"
  by (auto simp add: verify_partial_body_def get_public_key_share_def Let_def
        split: sum.splits if_splits)

lemma toy_pairing_error: "\<forall>Q P e. pairing toy_bn128 Q P = Inl e \<longrightarrow> is_Exception e"
  by (auto simp add: toy_bn128_def split: if_splits)

lemma length_create_shares: "length (create_shares p t n rnd secret) = nat n"
  by (simp add: create_shares_def)

lemma nth_create_shares:
  "1 \<le> i \<Longrightarrow> i \<le> n \<Longrightarrow> create_shares p t n rnd secret ! nat (i - 1)
     = \<lparr>share_x = i, share_y = evaluate_polynomial p (generate_polynomial t rnd secret) i\<rparr>"
  by (simp add: create_shares_def Let_def)

subsection \<open>Aggregation of BLS partial signatures\<close>

lemma prime_field_inv_cong: "a mod n = b mod n \<Longrightarrow> prime_field_inv a n = prime_field_inv b n"
  by (simp add: prime_field_inv_def)

lemma bls_lagrange_coefficient_eq:
  assumes i: "i < length shares"
  shows "bls_lagrange_coefficient p shares i = Inr (bls_coeff p (map share_x shares) i)"
proof -
  obtain n' d' where l: "lagrange_loop p (share_x (shares ! i)) i 0 shares (1, 1) = (n', d')"
    by fastforce
  have n: "n' mod p = lag_num (map share_x shares) i mod p"
    and d: "d' mod p = lag_den (map share_x shares) i mod p"
    using lagrange_loop_num_den[OF l i] by simp_all
  have "(n' * prime_field_inv d' p) mod p
      = (lag_num (map share_x shares) i * prime_field_inv d' p) mod p"
    by (intro mod_mult_cong refl n)
  then show ?thesis
    using l i prime_field_inv_cong[OF d] by (simp add: bls_lagrange_coefficient_def bls_coeff_def)
qed

lemma combine_loop_eq:
  assumes z: "\<forall>P. add lib (Z1 lib) P = P" and len: "length shares = length sel"
  shows "rest = drop i sel \<Longrightarrow>
     combine_loop lib p shares i rest acc =
       Inr (foldl (add lib) acc
              (map (\<lambda>k. multiply lib (signature (sel ! k)) (bls_coeff p (map share_x shares) k))
                   [i..<length sel]))"
proof (induction rest arbitrary: i acc)
  case Nil
  then have "length sel \<le> i" by simp
  then show ?case by simp
next
  case (Cons s rest)
  have i: "i < length sel" using Cons.prems by (metis drop_all list.distinct(1) not_le)
  have s: "s = sel ! i" and r: "rest = drop (Suc i) sel"
    using Cons.prems i by (metis Cons_nth_drop_Suc list.inject)+
  have c: "bls_lagrange_coefficient p shares i = Inr (bls_coeff p (map share_x shares) i)"
    using i len by (simp add: bls_lagrange_coefficient_eq)
  let ?w = "multiply lib (signature (sel ! i)) (bls_coeff p (map share_x shares) i)"
  have acc: "(if acc = Z1 lib then ?w else add lib acc ?w) = add lib acc ?w"
    using z by simp
  have upt: "[i..<length sel] = i # [Suc i..<length sel]" using i by (simp add: upt_conv_Cons)
  show ?case
    using Cons.IH[OF r, of "add lib acc ?w"] by (simp add: c s acc upt Let_def)
qed

lemma combine_signatures_eq:
  assumes z: "\<forall>P. add lib (Z1 lib) P = P"
    and t: "0 \<le> threshold self" "threshold self \<le> int (length partial_sigs)"
  shows "combine_signatures lib self partial_sigs =
           Inr (foldl (add lib) (Z1 lib)
                  (bls_weights lib (prime self) (take (nat (threshold self)) partial_sigs)))"
proof -
  let ?sel = "take (nat (threshold self)) partial_sigs"
  let ?sh = "map (\<lambda>sig. \<lparr>share_x = signer_id sig, share_y = 0\<rparr>) ?sel"
  have x: "map share_x ?sh = map signer_id ?sel" by (simp add: comp_def)
  have "combine_loop lib (prime self) ?sh 0 ?sel (Z1 lib)
      = Inr (foldl (add lib) (Z1 lib)
              (map (\<lambda>k. multiply lib (signature (?sel ! k)) (bls_coeff (prime self) (map share_x ?sh) k))
                   [0..<length ?sel]))"
    by (rule combine_loop_eq[OF z]) simp_all
  then show ?thesis using t
    by (simp only: x combine_signatures_def py_prefix_def bls_weights_def Let_def) simp
qed

lemma g1_laws_comm: "g1_laws lib \<Longrightarrow> add lib P Q = add lib Q P"
  unfolding g1_laws_def by (elim conjE allE) assumption

lemma g1_laws_assoc: "g1_laws lib \<Longrightarrow> add lib (add lib P Q) R = add lib P (add lib Q R)"
  unfolding g1_laws_def by (elim conjE) blast

lemma g1_laws_zero: "g1_laws lib \<Longrightarrow> add lib (Z1 lib) P = P"
  unfolding g1_laws_def by (elim conjE) blast

lemma g1_laws_mult_zero: "g1_laws lib \<Longrightarrow> multiply lib P 0 = Z1 lib"
  unfolding g1_laws_def by (elim conjE) blast

lemma g1_laws_mult_add:
  "g1_laws lib \<Longrightarrow> 0 \<le> a \<Longrightarrow> 0 \<le> b
     \<Longrightarrow> multiply lib P (a + b) = add lib (multiply lib P a) (multiply lib P b)"
  unfolding g1_laws_def by (elim conjE) blast

lemma g1_laws_mult_mult:
  "g1_laws lib \<Longrightarrow> 0 \<le> a \<Longrightarrow> 0 \<le> b
     \<Longrightarrow> multiply lib (multiply lib P a) b = multiply lib P (a * b)"
  unfolding g1_laws_def by (elim conjE) blast

lemma g1_laws_mult_mod:
  "g1_laws lib \<Longrightarrow> 0 \<le> a \<Longrightarrow> multiply lib P (a mod curve_order lib) = multiply lib P a"
  unfolding g1_laws_def by (elim conjE) blast

lemma toy_of_int_mod: "(of_int (a mod 5) :: 5) = of_int a"
  by (simp add: bit1.of_int_eq)

lemma toy_g1_laws: "g1_laws toy_bn128"
  unfolding g1_laws_def
proof (intro conjI allI impI)
  fix P Q R :: 5 and a b :: int
  show "add toy_bn128 P Q = add toy_bn128 Q P" by (simp add: toy_bn128_def)
  show "add toy_bn128 (add toy_bn128 P Q) R = add toy_bn128 P (add toy_bn128 Q R)"
    by (simp add: toy_bn128_def)
  show "add toy_bn128 (Z1 toy_bn128) P = P" by (simp add: toy_bn128_def)
  show "multiply toy_bn128 P 0 = Z1 toy_bn128" by (simp add: toy_bn128_def)
  show "multiply toy_bn128 P (a + b) = add toy_bn128 (multiply toy_bn128 P a) (multiply toy_bn128 P b)"
    by (simp add: toy_bn128_def distrib_left)
  show "multiply toy_bn128 (multiply toy_bn128 P a) b = multiply toy_bn128 P (a * b)"
    by (simp add: toy_bn128_def mult.assoc)
  show "multiply toy_bn128 P (a mod curve_order toy_bn128) = multiply toy_bn128 P a"
    by (simp add: toy_bn128_def toy_of_int_mod)
qed

lemma mset_others: "i < length xs \<Longrightarrow> mset (others i xs) = mset xs - {#xs ! i#}"
proof -
  assume i: "i < length xs"
  have "mset xs = mset (take i xs @ xs ! i # drop (Suc i) xs)"
    using i by (simp only: id_take_nth_drop[symmetric])
  also have "\<dots> = add_mset (xs ! i) (mset (take i xs) + mset (drop (Suc i) xs))" by simp
  finally show ?thesis by (simp add: others_def)
qed

lemma lag_num_mset:
  "i < length xs \<Longrightarrow> lag_num xs i = prod_mset (image_mset (\<lambda>y. - y) (mset xs - {#xs ! i#}))"
  by (simp add: lag_num_def mset_others[symmetric] prod_mset_prod_list[symmetric])

lemma lag_den_mset:
  "i < length xs \<Longrightarrow> lag_den xs i = prod_mset (image_mset (\<lambda>y. xs ! i - y) (mset xs - {#xs ! i#}))"
  by (simp add: lag_den_def mset_others[symmetric] prod_mset_prod_list[symmetric])

lemma bls_weights_map:
  "bls_weights lib p sel =
     map (\<lambda>sig. multiply lib (signature sig)
            ((prod_mset (image_mset (\<lambda>y. - y) (mset (map signer_id sel) - {#signer_id sig#}))
              * prime_field_inv
                  (prod_mset (image_mset (\<lambda>y. signer_id sig - y)
                                (mset (map signer_id sel) - {#signer_id sig#}))) p) mod p))
         sel"
proof (rule nth_equalityI)
  show "length (bls_weights lib p sel) = length (map (\<lambda>sig. multiply lib (signature sig)
            ((prod_mset (image_mset (\<lambda>y. - y) (mset (map signer_id sel) - {#signer_id sig#}))
              * prime_field_inv
                  (prod_mset (image_mset (\<lambda>y. signer_id sig - y)
                                (mset (map signer_id sel) - {#signer_id sig#}))) p) mod p)) sel)"
    by (simp add: bls_weights_def)
next
  fix k assume "k < length (bls_weights lib p sel)"
  then have k: "k < length sel" by (simp add: bls_weights_def)
  then have k': "k < length (map signer_id sel)" by simp
  have e: "map signer_id sel ! k = signer_id (sel ! k)" using k by simp
  show "bls_weights lib p sel ! k = map (\<lambda>sig. multiply lib (signature sig)
            ((prod_mset (image_mset (\<lambda>y. - y) (mset (map signer_id sel) - {#signer_id sig#}))
              * prime_field_inv
                  (prod_mset (image_mset (\<lambda>y. signer_id sig - y)
                                (mset (map signer_id sel) - {#signer_id sig#}))) p) mod p)) sel ! k"
    using k by (simp add: bls_weights_def bls_coeff_def lag_num_mset[OF k'] lag_den_mset[OF k'] e
        del: mset_map)
qed

lemma bls_weights_mset:
  assumes "mset sel = mset sel'"
  shows "mset (bls_weights lib p sel) = mset (bls_weights lib p sel')"
proof -
  have "mset (map signer_id sel) = mset (map signer_id sel')" using assms by simp
  then show ?thesis using assms by (simp only: bls_weights_map mset_map)
qed

lemma foldl_add_mset:
  assumes comm: "\<forall>P Q. add lib P Q = add lib Q P"
    and assoc: "\<forall>P Q R. add lib (add lib P Q) R = add lib P (add lib Q R)"
    and ms: "mset ws = mset ws'"
  shows "foldl (add lib) z ws = foldl (add lib) z ws'"
proof -
  have c: "(\<lambda>a. add lib a x) \<circ> (\<lambda>a. add lib a y) = (\<lambda>a. add lib a y) \<circ> (\<lambda>a. add lib a x)" for x y
  proof
    fix a
    have "add lib (add lib a y) x = add lib a (add lib y x)" using assoc by simp
    also have "\<dots> = add lib a (add lib x y)" using comm by simp
    also have "\<dots> = add lib (add lib a x) y" using assoc by simp
    finally show "((\<lambda>a. add lib a x) \<circ> (\<lambda>a. add lib a y)) a
        = ((\<lambda>a. add lib a y) \<circ> (\<lambda>a. add lib a x)) a" by simp
  qed
  have "fold (\<lambda>w a. add lib a w) ws = fold (\<lambda>w a. add lib a w) ws'"
    by (rule fold_multiset_equiv) (use c ms in auto)
  then show ?thesis by (simp add: foldl_conv_fold)
qed

lemma lagrange_sum:
  assumes pr: "is_prime p"
    and dist: "distinct (map (\<lambda>a. a mod p) xs)"
    and len: "length cs \<le> length xs"
    and w: "\<And>k. k < length xs \<Longrightarrow> (w k * lag_den xs k) mod p = 1"
  shows "(\<Sum>k<length xs. (peval cs (xs ! k) mod p) * ((lag_num xs k * w k) mod p)) mod p
           = peval cs 0 mod p"
proof -
  have r2: "(\<Sum>k<length xs. (peval cs (xs ! k) mod p) * ((lag_num xs k * w k) mod p)) mod p
      = (\<Sum>k<length xs. (peval cs (xs ! k) * w k) * lag_num xs k) mod p"
  proof (rule mod_sum_cong)
    fix k assume "k \<in> {..<length xs}"
    have "((peval cs (xs ! k) mod p) * ((lag_num xs k * w k) mod p)) mod p
        = (peval cs (xs ! k) * (lag_num xs k * w k)) mod p"
      by (simp only: mod_mult_eq)
    also have "peval cs (xs ! k) * (lag_num xs k * w k) = peval cs (xs ! k) * w k * lag_num xs k"
      by (simp only: mult_ac)
    finally show "((peval cs (xs ! k) mod p) * ((lag_num xs k * w k) mod p)) mod p
        = (peval cs (xs ! k) * w k * lag_num xs k) mod p" .
  qed
  have r3: "(\<Sum>k<length xs. (peval cs (xs ! k) * w k) * lag_num xs k) mod p = peval cs 0 mod p"
  proof (rule lagrange_at_zero[OF pr dist len], intro allI impI)
    fix k assume k: "k < length xs"
    have "(peval cs (xs ! k) * (w k * lag_den xs k)) mod p
        = (peval cs (xs ! k) * ((w k * lag_den xs k) mod p)) mod p"
      by (simp only: mod_mult_right_eq)
    also have "\<dots> = peval cs (xs ! k) mod p" using w[OF k] by simp
    finally show "(peval cs (xs ! k) * w k * lag_den xs k) mod p = peval cs (xs ! k) mod p"
      by (simp only: mult.assoc)
  qed
  show ?thesis by (simp only: r2 r3)
qed

lemma foldl_multiply_sum:
  assumes laws: "g1_laws lib"
  shows "0 \<le> a \<Longrightarrow> \<forall>k\<in>set ks. 0 \<le> f k \<Longrightarrow>
     foldl (add lib) (multiply lib H a) (map (\<lambda>k. multiply lib H (f k)) ks)
       = multiply lib H (a + sum_list (map f ks))"
proof (induction ks arbitrary: a)
  case Nil show ?case by simp
next
  case (Cons k ks)
  have fk: "0 \<le> f k" using Cons.prems(2) by simp
  have "add lib (multiply lib H a) (multiply lib H (f k)) = multiply lib H (a + f k)"
    using g1_laws_mult_add[OF laws Cons.prems(1) fk] by simp
  moreover have "0 \<le> a + f k" using Cons.prems(1) fk by simp
  moreover have "\<forall>k\<in>set ks. 0 \<le> f k" using Cons.prems(2) by simp
  ultimately show ?case using Cons.IH[of "a + f k"] by (simp add: add.assoc)
qed

lemma bls_coeff_dup_zero:
  assumes "i < length xs" "j < length xs" "j \<noteq> i" "xs ! j = xs ! i"
  shows "bls_coeff p xs i = 0"
proof -
  have "xs ! j \<in> set (others i xs)" using nth_in_others[OF assms(2,1,3)] .
  then have "0 \<in> set (map (\<lambda>y. xs ! i - y) (others i xs))" using assms(4) by force
  then have "lag_den xs i = 0" unfolding lag_den_def by (rule prod_list_zero_mem)
  then show ?thesis by (simp add: bls_coeff_def prime_field_inv_def)
qed

lemma combine_loop_Inr:
  assumes len: "length shares = length sel"
  shows "rest = drop i sel \<Longrightarrow> \<exists>sigma. combine_loop lib p shares i rest acc = Inr sigma"
proof (induction rest arbitrary: i acc)
  case Nil show ?case by simp
next
  case (Cons s rest)
  have i: "i < length sel" using Cons.prems by (metis drop_all list.distinct(1) not_le)
  have r: "rest = drop (Suc i) sel"
    using Cons.prems i by (metis Cons_nth_drop_Suc list.inject)
  have c: "bls_lagrange_coefficient p shares i = Inr (bls_coeff p (map share_x shares) i)"
    using i len by (simp add: bls_lagrange_coefficient_eq)
  show ?case using Cons.IH[OF r] by (simp add: c Let_def)
qed

lemma bls_init_fields:
  "threshold (BLSThresholdSignature_init lib t n sk rnd) = t"
  "num_parties (BLSThresholdSignature_init lib t n sk rnd) = n"
  "prime (BLSThresholdSignature_init lib t n sk rnd) = curve_order lib"
  "master_private_key (BLSThresholdSignature_init lib t n sk rnd) = sk"
  "private_shares (BLSThresholdSignature_init lib t n sk rnd)
     = create_shares (curve_order lib) t n rnd sk"
  by (simp_all add: BLSThresholdSignature_init_def Let_def)

lemma create_partial_signature_init:
  assumes "1 \<le> i" "i \<le> n"
  shows "create_partial_signature lib (BLSThresholdSignature_init lib t n sk rnd) i message
     = Inr \<lparr>signer_id = i,
            signature = multiply lib (hash_to_g1 lib message)
              (evaluate_polynomial (curve_order lib) (generate_polynomial t rnd sk) i)\<rparr>"
proof -
  have "nat (i - 1) < nat n" using assms by simp
  then have "get_private_share (BLSThresholdSignature_init lib t n sk rnd) i
      = Inr (create_shares (curve_order lib) t n rnd sk ! nat (i - 1))"
    using assms by (simp add: get_private_share_def bls_init_fields length_create_shares)
  then show ?thesis
    by (simp add: create_partial_signature_def nth_create_shares[OF assms] Let_def)
qed

lemma toy_coefficients:
  "bls_lagrange_coefficient 5 [\<lparr>share_x = 1, share_y = 0\<rparr>, \<lparr>share_x = 3, share_y = 0\<rparr>] 0 = Inr 4"
  "bls_lagrange_coefficient 5 [\<lparr>share_x = 1, share_y = 0\<rparr>, \<lparr>share_x = 3, share_y = 0\<rparr>] (Suc 0) = Inr 2"
  "bls_lagrange_coefficient 5 [\<lparr>share_x = 2, share_y = 0\<rparr>, \<lparr>share_x = 3, share_y = 0\<rparr>] 0 = Inr 3"
  "bls_lagrange_coefficient 5 [\<lparr>share_x = 2, share_y = 0\<rparr>, \<lparr>share_x = 3, share_y = 0\<rparr>] (Suc 0) = Inr 3"
  by code_simp+

lemma combine_signatures_duplicates:
  assumes t: "0 \<le> threshold self" "threshold self \<le> int (length partial_sigs)"
    and dup: "\<not> distinct (map signer_id (py_prefix (threshold self) partial_sigs))"
  shows "(\<exists>sigma. combine_signatures lib self partial_sigs = Inr sigma)
       \<and> (\<forall>i<nat (threshold self).
             (\<exists>j<nat (threshold self). j \<noteq> i
                  \<and> signer_id (partial_sigs ! j) = signer_id (partial_sigs ! i))
             \<longrightarrow> bls_lagrange_coefficient (prime self)
                    (map (\<lambda>sig. \<lparr>share_x = signer_id sig, share_y = 0\<rparr>)
                         (py_prefix (threshold self) partial_sigs)) i
                  = Inr 0)"
proof (intro conjI allI impI)
  let ?t = "nat (threshold self)"
  let ?sel = "take ?t partial_sigs"
  let ?sh = "map (\<lambda>sig. \<lparr>share_x = signer_id sig, share_y = 0\<rparr>) ?sel"
  have pre: "py_prefix (threshold self) partial_sigs = ?sel" using t by (simp add: py_prefix_def)
  have lt: "length ?sel = ?t" using t by simp
  have x: "map share_x ?sh = map signer_id ?sel" by (simp add: comp_def)
  have "\<exists>sigma. combine_loop lib (prime self) ?sh 0 ?sel (Z1 lib) = Inr sigma"
    by (rule combine_loop_Inr) simp_all
  then show "\<exists>sigma. combine_signatures lib self partial_sigs = Inr sigma"
    using t by (simp add: combine_signatures_def pre Let_def)
  fix i
  assume i: "i < ?t"
    and "\<exists>j<?t. j \<noteq> i \<and> signer_id (partial_sigs ! j) = signer_id (partial_sigs ! i)"
  then obtain j where j: "j < ?t" "j \<noteq> i"
      "signer_id (partial_sigs ! j) = signer_id (partial_sigs ! i)" by blast
  have "bls_coeff (prime self) (map signer_id ?sel) i = 0"
    by (rule bls_coeff_dup_zero[of i _ j]) (use i j lt in simp_all)
  moreover have "bls_lagrange_coefficient (prime self) ?sh i
      = Inr (bls_coeff (prime self) (map share_x ?sh) i)"
    by (rule bls_lagrange_coefficient_eq) (use i lt in simp)
  ultimately show "bls_lagrange_coefficient (prime self)
        (map (\<lambda>sig. \<lparr>share_x = signer_id sig, share_y = 0\<rparr>)
             (py_prefix (threshold self) partial_sigs)) i = Inr 0"
    by (simp only: pre x)
qed

section \<open>The claims\<close>

text \<open>
  C1 (BLS uniqueness). In a context set up for a prime group order with \<open>1 \<le> t \<le> n\<close>
  and fewer parties than the order, for every message and every list of \<open>t\<close> pairwise
  distinct party ids in \<open>1..n\<close>, \<^verbatim>\<open>create_partial_signature\<close> succeeds for each id and
  \<^verbatim>\<open>combine_signatures\<close> of the partial signatures returns
  \<open>master_private_key\<close> times the hash point, whatever the committee.
\<close>

theorem bls_uniqueness:
  assumes pr: "is_prime (curve_order lib)"
    and laws: "g1_laws lib"
    and t: "1 \<le> t" "t \<le> n"
    and n: "n < curve_order lib"
    and sk: "0 \<le> sk"
    and self: "self = BLSThresholdSignature_init lib t n sk rnd"
    and ids: "length ids = nat t" "distinct ids" "\<forall>i\<in>set ids. 1 \<le> i \<and> i \<le> n"
  shows "\<exists>partial_sigs.
           map (\<lambda>i. create_partial_signature lib self i message) ids = map Inr partial_sigs
           \<and> combine_signatures lib self partial_sigs
               = Inr (multiply lib (hash_to_g1 lib message) (master_private_key self))"
proof -
  define p where "p = curve_order lib"
  define H where "H = hash_to_g1 lib message"
  define cs where "cs = generate_polynomial t rnd sk"
  define ps where "ps = map (\<lambda>i. \<lparr>signer_id = i,
      signature = multiply lib H (evaluate_polynomial p cs i)\<rparr>) ids"
  define W where "W = (\<lambda>k. prime_field_inv (lag_den ids k) p)"
  define f where "f = (\<lambda>k. (peval cs (ids ! k) mod p) * ((lag_num ids k * W k) mod p))"
  have p1: "1 < p" using pr by (simp add: p_def is_prime_def)
  have z: "\<forall>P. add lib (Z1 lib) P = P" using g1_laws_zero[OF laws] by blast
  have created: "map (\<lambda>i. create_partial_signature lib self i message) ids = map Inr ps"
    unfolding ps_def map_map
  proof (rule map_cong[OF refl])
    fix i assume "i \<in> set ids"
    then have "1 \<le> i" "i \<le> n" using ids(3) by auto
    then show "create_partial_signature lib self i message
        = (Inr \<circ> (\<lambda>i. \<lparr>signer_id = i, signature = multiply lib H (evaluate_polynomial p cs i)\<rparr>)) i"
      by (simp add: self create_partial_signature_init H_def p_def cs_def)
  qed
  have lps: "length ps = nat t" using ids(1) by (simp add: ps_def)
  have sid: "map signer_id ps = ids" by (simp add: ps_def comp_def)
  have th: "threshold self = t" "prime self = p" "master_private_key self = sk"
    by (simp_all add: self bls_init_fields p_def)
  have "combine_signatures lib self ps
      = Inr (foldl (add lib) (Z1 lib) (bls_weights lib (prime self) (take (nat (threshold self)) ps)))"
    by (rule combine_signatures_eq[OF z]) (use t lps th in simp_all)
  then have comb: "combine_signatures lib self ps
      = Inr (foldl (add lib) (Z1 lib) (bls_weights lib p ps))"
    using lps by (simp add: th)
  have f0: "0 \<le> f k" for k using p1 by (simp add: f_def)
  have wts: "bls_weights lib p ps = map (\<lambda>k. multiply lib H (f k)) [0..<nat t]"
    unfolding bls_weights_def lps sid
  proof (rule map_cong[OF refl])
    fix k assume "k \<in> set [0..<nat t]"
    then have k: "k < length ids" using ids(1) by simp
    have "signature (ps ! k) = multiply lib H (evaluate_polynomial p cs (ids ! k))"
      using k by (simp add: ps_def)
    moreover have "0 \<le> evaluate_polynomial p cs (ids ! k)" "0 \<le> bls_coeff p ids k"
      using p1 by (simp_all add: evaluate_polynomial_eq bls_coeff_def)
    ultimately show "multiply lib (signature (ps ! k)) (bls_coeff p ids k) = multiply lib H (f k)"
      using g1_laws_mult_mult[OF laws]
      by (simp add: f_def evaluate_polynomial_eq bls_coeff_def W_def)
  qed
  have "foldl (add lib) (multiply lib H 0) (map (\<lambda>k. multiply lib H (f k)) [0..<nat t])
      = multiply lib H (0 + sum_list (map f [0..<nat t]))"
    by (rule foldl_multiply_sum[OF laws]) (use f0 in simp_all)
  then have fold: "foldl (add lib) (Z1 lib) (bls_weights lib p ps)
      = multiply lib H (\<Sum>k<length ids. f k)"
    by (simp add: wts g1_laws_mult_zero[OF laws] interv_sum_list_conv_sum_set_nat
        atLeast0LessThan ids(1))
  have "map (\<lambda>a. a mod p) ids = ids"
    using ids(3) n by (intro map_idI) (auto simp add: p_def)
  then have dist: "distinct (map (\<lambda>a. a mod p) ids)" using ids(2) by simp
  have lcs: "length cs \<le> length ids" using t ids(1) by (simp add: cs_def generate_polynomial_def)
  have Wok: "(W k * lag_den ids k) mod p = 1" if "k < length ids" for k
    unfolding W_def
    by (rule prime_field_inv_correct) (use pr lag_den_nonzero[OF _ dist that] in \<open>simp_all add: p_def\<close>)
  have "(\<Sum>k<length ids. f k) mod p = peval cs 0 mod p"
    unfolding f_def by (rule lagrange_sum[OF _ dist lcs Wok]) (use pr in \<open>simp_all add: p_def\<close>)
  also have "\<dots> = sk mod p" by (simp add: cs_def generate_polynomial_def)
  finally have smod: "(\<Sum>k<length ids. f k) mod p = sk mod p" .
  have s0: "0 \<le> (\<Sum>k<length ids. f k)" using f0 by (simp add: sum_nonneg)
  have m1: "multiply lib H ((\<Sum>k<length ids. f k) mod p) = multiply lib H (\<Sum>k<length ids. f k)"
    using g1_laws_mult_mod[OF laws s0, of H] by (simp only: p_def)
  have m2: "multiply lib H (sk mod p) = multiply lib H sk"
    using g1_laws_mult_mod[OF laws sk, of H] by (simp only: p_def)
  have "multiply lib H (\<Sum>k<length ids. f k) = multiply lib H sk"
    using m1 m2 by (simp only: smod)
  then have "combine_signatures lib self ps = Inr (multiply lib H sk)"
    by (simp add: comb fold)
  then show ?thesis using created by (intro exI[of _ ps]) (simp add: H_def th)
qed

theorem bls_uniqueness_witness:
  "is_prime (curve_order toy_bn128) \<and> g1_laws toy_bn128
   \<and> toy_bls = BLSThresholdSignature_init toy_bn128 2 3 4 (\<lambda>k. 3)
   \<and> length [1, 3 :: int] = nat 2 \<and> distinct [1, 3 :: int]
   \<and> (\<exists>partial_sigs.
          map (\<lambda>i. create_partial_signature toy_bn128 toy_bls i []) [1, 3] = map Inr partial_sigs
          \<and> combine_signatures toy_bn128 toy_bls partial_sigs
              = Inr (multiply toy_bn128 (hash_to_g1 toy_bn128 []) (master_private_key toy_bls)))
   \<and> combine_signatures toy_bn128 toy_bls
         [\<lparr>signer_id = 1, signature = 1\<rparr>, \<lparr>signer_id = 3, signature = 4\<rparr>] = Inr 2
   \<and> combine_signatures toy_bn128 toy_bls
         [\<lparr>signer_id = 2, signature = 0\<rparr>, \<lparr>signer_id = 3, signature = 4\<rparr>] = Inr 2"
proof -
  have h1: "is_prime (curve_order toy_bn128)" by (simp add: toy_bn128_def is_prime_5)
  have h2: "g1_laws toy_bn128" by (rule toy_g1_laws)
  have h3: "(1::int) \<le> 2" "(2::int) \<le> 3" by simp_all
  have h4: "3 < curve_order toy_bn128" by (simp add: toy_bn128_def)
  have h5: "(0::int) \<le> 4" by simp
  have h6: "toy_bls = BLSThresholdSignature_init toy_bn128 2 3 4 (\<lambda>k. 3)" by (simp add: toy_bls_def)
  have h7: "length [1, 3 :: int] = nat 2" "distinct [1, 3 :: int]" by simp_all
  have h8: "\<forall>i\<in>set [1, 3 :: int]. 1 \<le> i \<and> i \<le> 3" by simp
  have h9: "combine_signatures toy_bn128 toy_bls
         [\<lparr>signer_id = 1, signature = 1\<rparr>, \<lparr>signer_id = 3, signature = 4\<rparr>] = Inr 2"
    by (simp add: combine_signatures_def py_prefix_def toy_bls_simps toy_coefficients)
       (simp add: toy_bn128_def)
  have h10: "combine_signatures toy_bn128 toy_bls
         [\<lparr>signer_id = 2, signature = 0\<rparr>, \<lparr>signer_id = 3, signature = 4\<rparr>] = Inr 2"
    by (simp add: combine_signatures_def py_prefix_def toy_bls_simps toy_coefficients)
       (simp add: toy_bn128_def)
  show ?thesis
    using bls_uniqueness [OF h1 h2 h3 h4 h5 h6 h7 h8, of "[]"] h1 h2 h6 h7 h9 h10 by blast
qed

text \<open>
  C2 (Lagrange round trip). For a prime modulus \<open>p\<close>, a coefficient list of length
  \<open>t\<close> with entries in \<open>[0, p)\<close> and \<open>t\<close> pairwise distinct x-values in
  \<open>[1, p)\<close>, \<^verbatim>\<open>reconstruct_secret\<close> applied to the shares
  \<open>(x, evaluate_polynomial coefficients x)\<close> returns the constant term
  \<open>coefficients[0]\<close>.
\<close>

theorem lagrange_round_trip:
  assumes pr: "is_prime p"
    and t: "1 \<le> t"
    and lc: "length coefficients = nat t"
    and rc: "\<forall>c\<in>set coefficients. 0 \<le> c \<and> c < p"
    and lx: "length xs = nat t"
    and dx: "distinct xs"
    and rx: "\<forall>x\<in>set xs. 1 \<le> x \<and> x < p"
  shows "reconstruct_secret p t
           (map (\<lambda>x. \<lparr>share_x = x, share_y = evaluate_polynomial p coefficients x\<rparr>) xs)
         = Inr (coefficients ! 0)"
proof -
  define sh where "sh = map (\<lambda>x. \<lparr>share_x = x, share_y = evaluate_polynomial p coefficients x\<rparr>) xs"
  have p1: "1 < p" using pr by (simp add: is_prime_def)
  have xs: "map share_x sh = xs" by (simp add: sh_def comp_def)
  have len: "length sh = length xs" by (simp add: sh_def)
  have ys: "share_y (sh ! k) = peval coefficients (xs ! k) mod p" if "k < length xs" for k
    using that by (simp add: sh_def evaluate_polynomial_eq)
  have "map (\<lambda>a. a mod p) xs = xs" using rx by (intro map_idI) auto
  then have dist: "distinct (map (\<lambda>a. a mod p) xs)" using dx by simp
  have dist': "distinct (map (\<lambda>a. a mod p) (map share_x sh))" using dist by (simp only: xs)
  have sel: "py_prefix t sh = sh" using t len lx by (simp add: py_prefix_def)
  have "\<exists>w. k < length sh \<longrightarrow> ecdsa_lagrange_coefficient p sh k = Inr ((lag_num xs k * w) mod p)
           \<and> (w * lag_den xs k) mod p = 1" for k
    using ecdsa_lagrange_coefficient_ok[OF pr dist', of k] by (auto simp only: xs)
  then have "\<exists>w. \<forall>k. k < length sh \<longrightarrow> ecdsa_lagrange_coefficient p sh k = Inr ((lag_num xs k * w k) mod p)
           \<and> (w k * lag_den xs k) mod p = 1"
    by (intro choice allI)
  then obtain w where w: "\<And>k. k < length sh \<Longrightarrow> ecdsa_lagrange_coefficient p sh k = Inr ((lag_num xs k * w k) mod p)"
       and w1: "\<And>k. k < length sh \<Longrightarrow> (w k * lag_den xs k) mod p = 1"
    by blast
  define c where "c = (\<lambda>k. (lag_num xs k * w k) mod p)"
  have ne: "sh \<noteq> []" using len lx t by auto
  have cc: "\<forall>k<length sh. ecdsa_lagrange_coefficient p sh k = Inr (c k)" using w by (simp add: c_def)
  have "reconstruct_loop p sh 0 sh 0
      = Inr ((0 + (\<Sum>k = 0..<length sh. share_y (sh ! k) * c k)) mod p)"
    using reconstruct_loop_eq[OF cc, of sh 0 0] ne by (simp only: drop_0 if_False)
  then have r1: "reconstruct_loop p sh 0 sh 0
      = Inr ((\<Sum>k<length xs. share_y (sh ! k) * c k) mod p)"
    by (simp only: add_0 len atLeast0LessThan)
  have "(\<Sum>k<length xs. share_y (sh ! k) * c k)
      = (\<Sum>k<length xs. (peval coefficients (xs ! k) mod p) * ((lag_num xs k * w k) mod p))"
    by (rule sum.cong[OF refl]) (simp add: ys c_def)
  moreover have "(\<Sum>k<length xs. (peval coefficients (xs ! k) mod p) * ((lag_num xs k * w k) mod p)) mod p
      = peval coefficients 0 mod p"
    by (rule lagrange_sum[OF pr dist]) (use lc lx w1 len in simp_all)
  ultimately have r2: "(\<Sum>k<length xs. share_y (sh ! k) * c k) mod p = peval coefficients 0 mod p"
    by simp
  have r4: "peval coefficients 0 mod p = coefficients ! 0"
  proof -
    obtain c0 cs where cs: "coefficients = c0 # cs" using lc t by (cases coefficients) auto
    then show ?thesis using rc by simp
  qed
  have fin: "reconstruct_loop p sh 0 sh 0 = Inr (coefficients ! 0)"
    by (simp only: r1 r2 r4)
  have "\<not> int (length sh) < t" using len lx t by simp
  then have "reconstruct_secret p t sh = Inr (coefficients ! 0)"
    by (simp add: reconstruct_secret_def sel fin)
  then show ?thesis by (simp only: sh_def)
qed

theorem lagrange_round_trip_witness:
  "is_prime 7 \<and> length [3, 5 :: int] = nat 2 \<and> length [2, 6 :: int] = nat 2
   \<and> distinct [2, 6 :: int]
   \<and> reconstruct_secret 7 2
         (map (\<lambda>x. \<lparr>share_x = x, share_y = evaluate_polynomial 7 [3, 5] x\<rparr>) [2, 6])
       = Inr ([3, 5] ! 0)"
proof -
  have h1: "is_prime 7" by code_simp
  have h2: "(1::int) \<le> 2" by simp
  have h3: "length [3, 5 :: int] = nat 2" by simp
  have h4: "\<forall>c\<in>set [3, 5 :: int]. 0 \<le> c \<and> c < 7" by simp
  have h5: "length [2, 6 :: int] = nat 2" by simp
  have h6: "distinct [2, 6 :: int]" by simp
  have h7: "\<forall>x\<in>set [2, 6 :: int]. 1 \<le> x \<and> x < 7" by simp
  show ?thesis
    using lagrange_round_trip [OF h1 h2 h3 h4 h5 h6 h7] h1 h3 h5 h6 by blast
qed

text \<open>
  C3 (duplicate signer ids). The claim: when the first \<open>threshold\<close> BLS partial signatures
  contain a duplicate signer id, \<^verbatim>\<open>combine_signatures\<close> fails with \<open>InvalidInput\<close>.
  The code does not: in the 2-of-3 instance, on the partial signature of party 1 given twice,
  it returns the neutral element, which is not \<open>master_private_key\<close> times the hash point
  (that is 2). The ECDSA file's \<^verbatim>\<open>combine_signatures\<close>, whose
  \<^verbatim>\<open>lagrange_coefficient\<close> is the same text with the other library's inverse, fails with
  \<open>InvalidInput\<close> on the same signer ids.
\<close>

theorem duplicate_signers_combine:
  "create_partial_signature toy_bn128 toy_bls 1 [] = Inr \<lparr>signer_id = 1, signature = 1\<rparr>
   \<and> threshold toy_bls \<le> int (length [\<lparr>signer_id = 1, signature = 1 :: 5\<rparr>, \<lparr>signer_id = 1, signature = 1\<rparr>])
   \<and> \<not> distinct (map signer_id
          (py_prefix (threshold toy_bls) [\<lparr>signer_id = 1, signature = 1 :: 5\<rparr>, \<lparr>signer_id = 1, signature = 1\<rparr>]))
   \<and> combine_signatures toy_bn128 toy_bls
         [\<lparr>signer_id = 1, signature = 1\<rparr>, \<lparr>signer_id = 1, signature = 1\<rparr>] = Inr 0
   \<and> multiply toy_bn128 (hash_to_g1 toy_bn128 []) (master_private_key toy_bls) = 2
   \<and> ts_combine_signatures toy_ts
         [\<lparr>ps_signer_id = 1, ps_r = 3, ps_s = 1\<rparr>, \<lparr>ps_signer_id = 1, ps_r = 3, ps_s = 1\<rparr>] []
       = Inl InvalidInput"
proof (intro conjI)
  have "evaluate_polynomial 5 (generate_polynomial 2 (\<lambda>k. 3) 4) 1 = 2" by code_simp
  then show "create_partial_signature toy_bn128 toy_bls 1 [] = Inr \<lparr>signer_id = 1, signature = 1\<rparr>"
    by (simp add: toy_bls_def create_partial_signature_init)
       (simp add: toy_bn128_def hash_to_g1_def)
  show "threshold toy_bls \<le> int (length [\<lparr>signer_id = 1, signature = 1 :: 5\<rparr>, \<lparr>signer_id = 1, signature = 1\<rparr>])"
    by (simp add: toy_bls_simps)
  show "\<not> distinct (map signer_id
          (py_prefix (threshold toy_bls) [\<lparr>signer_id = 1, signature = 1 :: 5\<rparr>, \<lparr>signer_id = 1, signature = 1\<rparr>]))"
    by (simp add: toy_bls_simps py_prefix_def)
  show "combine_signatures toy_bn128 toy_bls
         [\<lparr>signer_id = 1, signature = 1\<rparr>, \<lparr>signer_id = 1, signature = 1\<rparr>] = Inr 0"
    by code_simp
  show "multiply toy_bn128 (hash_to_g1 toy_bn128 []) (master_private_key toy_bls) = 2"
    by (simp add: toy_bls_simps) (simp add: toy_bn128_def hash_to_g1_def)
  show "ts_combine_signatures toy_ts
         [\<lparr>ps_signer_id = 1, ps_r = 3, ps_s = 1\<rparr>, \<lparr>ps_signer_id = 1, ps_r = 3, ps_s = 1\<rparr>] []
       = Inl InvalidInput"
    by code_simp
qed

text \<open>
  C4, as amended. \<^verbatim>\<open>create_partial_signature\<close> of the ECDSA file has no test of
  \<open>r\<close>: for every party id in \<open>1..n\<close>, every message and every nonce \<open>k\<close> in
  \<open>[1, p)\<close> it returns the partial signature \<open>(party_id, r, k\<inverse> (e + r y) mod p)\<close>
  with \<open>r = (k G).x mod p\<close>, whatever \<open>r\<close> is, zero included, and leaves the object
  as it was.
\<close>

theorem ecdsa_partial_signature_no_nonce_check:
  assumes pr: "is_prime (order curve)"
    and self: "self = ThresholdSignature_init curve t n sk rnd"
    and id: "1 \<le> party_id" "party_id \<le> n"
    and k: "1 \<le> k" "k < order curve"
    and px: "point_x curve (scalar_mul curve k (generator curve)) = Some px"
  shows "\<exists>k_inv. (k_inv * k) mod order curve = 1 \<and>
           ts_create_partial_signature curve self party_id message (Some k) fresh
             = (Inr \<lparr>ps_signer_id = party_id, ps_r = px mod order curve,
                     ps_s = (k_inv * (ec_sha256 curve message mod order curve
                                      + (px mod order curve)
                                        * share_y (ts_private_shares self ! nat (party_id - 1))))
                            mod order curve\<rparr>, self)"
proof -
  have "\<not> order curve dvd k" using k by (simp add: zdvd_not_zless)
  then obtain w where w: "inverse_mod k (order curve) = Inr w" "(w * k) mod order curve = 1"
    using inverse_mod_correct[OF pr, of k] k(1) by auto
  have sh: "ts_get_private_share self party_id = Inr (ts_private_shares self ! nat (party_id - 1))"
    using id by (auto simp add: ts_get_private_share_def self ThresholdSignature_init_def
        length_create_shares)
  have p: "ts_prime self = order curve" by (simp add: self ThresholdSignature_init_def)
  show ?thesis
    using w px by (intro exI[of _ w]) (simp add: ts_create_partial_signature_def sh p Let_def)
qed

theorem ecdsa_partial_signature_no_nonce_check_witness:
  "is_prime (order toy_curve) \<and> toy_ts = ThresholdSignature_init toy_curve 2 3 4 (\<lambda>k. 3)
   \<and> point_x toy_curve (scalar_mul toy_curve 2 (generator toy_curve)) = Some 3
   \<and> (\<exists>k_inv. (k_inv * 2) mod order toy_curve = 1 \<and>
         ts_create_partial_signature toy_curve toy_ts 3 [0] (Some 2) 0
           = (Inr \<lparr>ps_signer_id = 3, ps_r = 3 mod order toy_curve,
                   ps_s = (k_inv * (ec_sha256 toy_curve [0] mod order toy_curve
                                    + (3 mod order toy_curve)
                                      * share_y (ts_private_shares toy_ts ! nat (3 - 1))))
                          mod order toy_curve\<rparr>, toy_ts))"
proof -
  have h1: "is_prime (order toy_curve)" by (simp add: toy_curve_def is_prime_5)
  have h2: "toy_ts = ThresholdSignature_init toy_curve 2 3 4 (\<lambda>k. 3)" by (simp add: toy_ts_def)
  have h3: "(1::int) \<le> 3" "(3::int) \<le> 3" "(1::int) \<le> 2" by simp_all
  have h4: "2 < order toy_curve" by (simp add: toy_curve_def)
  have h5: "point_x toy_curve (scalar_mul toy_curve 2 (generator toy_curve)) = Some 3"
    by (simp add: toy_curve_def)
  show ?thesis
    using ecdsa_partial_signature_no_nonce_check [OF h1 h2 h3 h4 h5, of "[0]" 0] h1 h2 h5
    by blast
qed

text \<open>
  On the small curve the nonce \<open>k = 1\<close> gives \<open>r = 0\<close>, and the partial signature
  with \<open>r = 0\<close> is returned: no \<open>InvalidNonce\<close>.
\<close>

theorem ecdsa_partial_signature_zero_r:
  "point_x toy_curve (scalar_mul toy_curve 1 (generator toy_curve)) = Some 0
   \<and> ts_create_partial_signature toy_curve toy_ts 1 [] (Some 1) 0
       = (Inr \<lparr>ps_signer_id = 1, ps_r = 0, ps_s = 3\<rparr>, toy_ts)"
proof
  show "point_x toy_curve (scalar_mul toy_curve 1 (generator toy_curve)) = Some 0"
    by (simp add: toy_curve_def)
  show "ts_create_partial_signature toy_curve toy_ts 1 [] (Some 1) 0
       = (Inr \<lparr>ps_signer_id = 1, ps_r = 0, ps_s = 3\<rparr>, toy_ts)"
    by code_simp
qed

text \<open>
  C5 (threshold soundness). A list of fewer than \<open>threshold\<close> partial signatures makes
  \<^verbatim>\<open>combine_signatures\<close> of the BLS file and of the ECDSA file fail with
  \<open>InsufficientSigners\<close>; no signature is returned.
\<close>

theorem insufficient_signers:
  "(int (length partial_sigs) < threshold self
      \<longrightarrow> combine_signatures lib self partial_sigs = Inl InsufficientSigners)
   \<and> (int (length ecdsa_sigs) < ts_threshold ecdsa_self
      \<longrightarrow> ts_combine_signatures ecdsa_self ecdsa_sigs message = Inl InsufficientSigners)"
  by (simp add: combine_signatures_def ts_combine_signatures_def)

theorem insufficient_signers_witness:
  "int (length [\<lparr>signer_id = 1, signature = 3 :: 5\<rparr>]) < threshold toy_bls
   \<and> combine_signatures toy_bn128 toy_bls [\<lparr>signer_id = 1, signature = 3\<rparr>] = Inl InsufficientSigners
   \<and> int (length [\<lparr>ps_signer_id = 1, ps_r = 3, ps_s = 0\<rparr>]) < ts_threshold toy_ts
   \<and> ts_combine_signatures toy_ts [\<lparr>ps_signer_id = 1, ps_r = 3, ps_s = 0\<rparr>] [0]
       = Inl InsufficientSigners"
proof -
  have h1: "int (length [\<lparr>signer_id = 1, signature = 3 :: 5\<rparr>]) < threshold toy_bls"
    by (simp add: toy_bls_simps)
  have h2: "int (length [\<lparr>ps_signer_id = 1, ps_r = 3, ps_s = 0\<rparr>]) < ts_threshold toy_ts"
    by (simp add: toy_ts_simps)
  show ?thesis
    using insufficient_signers [of "[\<lparr>signer_id = 1, signature = 3 :: 5\<rparr>]" toy_bls toy_bn128
        "[\<lparr>ps_signer_id = 1, ps_r = 3, ps_s = 0\<rparr>]" toy_ts "[0]"] h1 h2
    by blast
qed

text \<open>
  C6 (nonce consistency). Given at least \<open>threshold\<close> partial signatures, ECDSA
  \<^verbatim>\<open>combine_signatures\<close> fails with \<open>InconsistentNonce\<close> when two of them carry
  distinct \<open>r\<close> values, and when it returns \<open>(r, s)\<close> every supplied partial
  signature has that \<open>r\<close>.
\<close>

theorem nonce_consistency:
  assumes "ts_threshold self \<le> int (length partial_sigs)"
  shows "((\<exists>a\<in>set partial_sigs. \<exists>b\<in>set partial_sigs. ps_r a \<noteq> ps_r b)
            \<longrightarrow> ts_combine_signatures self partial_sigs message = Inl InconsistentNonce)
       \<and> (\<forall>r s. ts_combine_signatures self partial_sigs message = Inr (r, s)
            \<longrightarrow> (\<forall>a\<in>set partial_sigs. ps_r a = r))"
proof (intro conjI impI allI)
  assume "\<exists>a\<in>set partial_sigs. \<exists>b\<in>set partial_sigs. ps_r a \<noteq> ps_r b"
  then obtain a b where ab: "a \<in> set partial_sigs" "b \<in> set partial_sigs" "ps_r a \<noteq> ps_r b"
    by blast
  have "card (set (map ps_r partial_sigs)) \<noteq> 1"
  proof
    assume "card (set (map ps_r partial_sigs)) = 1"
    then obtain v where "set (map ps_r partial_sigs) = {v}" by (auto simp: card_1_singleton_iff)
    then have "ps_r a = v" "ps_r b = v" using ab(1,2) by auto
    then show False using ab(3) by simp
  qed
  then show "ts_combine_signatures self partial_sigs message = Inl InconsistentNonce"
    using assms by (simp add: ts_combine_signatures_def)
next
  fix r s
  assume ok: "ts_combine_signatures self partial_sigs message = Inr (r, s)"
  have c: "card (set (map ps_r partial_sigs)) = 1"
  proof (rule ccontr)
    assume "card (set (map ps_r partial_sigs)) \<noteq> 1"
    then show False using ok by (simp add: ts_combine_signatures_def split: if_splits)
  qed
  then obtain v where v: "set (map ps_r partial_sigs) = {v}" by (auto simp: card_1_singleton_iff)
  have r: "r = ps_r (partial_sigs ! 0)"
    using ok c by (simp add: ts_combine_signatures_def Let_def split: if_splits sum.splits)
  have ne: "partial_sigs \<noteq> []" using v by auto
  then have "partial_sigs ! 0 \<in> set partial_sigs" by simp
  then have "ps_r (partial_sigs ! 0) = v" using v by auto
  then show "\<forall>a\<in>set partial_sigs. ps_r a = r" using v r by auto
qed

theorem nonce_consistency_witness:
  "ts_threshold toy_ts \<le> int (length [\<lparr>ps_signer_id = 1, ps_r = 3, ps_s = 0\<rparr>, \<lparr>ps_signer_id = 3, ps_r = 2, ps_s = 4\<rparr>])
   \<and> ts_combine_signatures toy_ts
         [\<lparr>ps_signer_id = 1, ps_r = 3, ps_s = 0\<rparr>, \<lparr>ps_signer_id = 3, ps_r = 2, ps_s = 4\<rparr>] [0]
       = Inl InconsistentNonce"
proof -
  let ?ps = "[\<lparr>ps_signer_id = 1, ps_r = 3, ps_s = 0\<rparr>, \<lparr>ps_signer_id = 3, ps_r = 2, ps_s = 4\<rparr>]"
  have h1: "ts_threshold toy_ts \<le> int (length ?ps)" by (simp add: toy_ts_simps)
  have h2: "\<exists>a\<in>set ?ps. \<exists>b\<in>set ?ps. ps_r a \<noteq> ps_r b"
    by (rule bexI[of _ "\<lparr>ps_signer_id = 1, ps_r = 3, ps_s = 0\<rparr>"],
        rule bexI[of _ "\<lparr>ps_signer_id = 3, ps_r = 2, ps_s = 4\<rparr>"]) simp_all
  show ?thesis using nonce_consistency [OF h1, of "[0]"] h1 h2 by blast
qed

text \<open>
  C7 (ECDSA verification). \<^verbatim>\<open>verify_signature\<close> returns false when \<open>r\<close> or
  \<open>s\<close> is outside \<open>[1, p)\<close>. Otherwise, with \<open>e\<close> the digest modulo \<open>p\<close>,
  \<open>w\<close> the inverse of \<open>s\<close> modulo \<open>p\<close>, \<open>u1 = e w\<close>, \<open>u2 = r w\<close> and
  \<open>P = u1 G + u2 Q\<close>, it returns true exactly when \<open>P\<close> is not the point at infinity
  and \<open>P.x mod p = r\<close>. The modulus is prime, and \<^verbatim>\<open>x()\<close> is \<^verbatim>\<open>None\<close> on the
  point at infinity only. When \<open>P\<close> is not the point at infinity the method returns the
  comparison; on the point at infinity the \<^verbatim>\<open>%\<close> raises \<open>TypeError\<close> and the
  handler returns false once its \<^verbatim>\<open>print\<close> has returned.
\<close>

theorem ecdsa_verify_signature:
  assumes pr: "is_prime (ts_prime self)"
    and inf: "\<forall>P. point_x curve P = None \<longleftrightarrow> P = INFINITY curve"
  shows "(r < 1 \<or> ts_prime self \<le> r \<or> s < 1 \<or> ts_prime self \<le> s
            \<longrightarrow> ts_verify_signature curve out self (SigPair r s) message = Inr False)
       \<and> (1 \<le> r \<and> r < ts_prime self \<and> 1 \<le> s \<and> s < ts_prime self
            \<longrightarrow> (\<exists>w. (w * s) mod ts_prime self = 1 \<and>
                  (let e = ec_sha256 curve message mod ts_prime self;
                       u1 = (e * w) mod ts_prime self;
                       u2 = (r * w) mod ts_prime self;
                       P = point_add curve (scalar_mul curve u1 (generator curve))
                                           (scalar_mul curve u2 (ts_public_key self))
                   in ((ts_verify_signature curve out self (SigPair r s) message = Inr True)
                         = (P \<noteq> INFINITY curve
                            \<and> the (point_x curve P) mod ts_prime self = r))
                      \<and> (P \<noteq> INFINITY curve \<or> out TypeError = None
                           \<longrightarrow> ts_verify_signature curve out self (SigPair r s) message
                                 = Inr (P \<noteq> INFINITY curve
                                        \<and> the (point_x curve P) mod ts_prime self = r))
                      \<and> ts_verify_signature curve out self (SigPair r s) message
                            = (if P = INFINITY curve
                               then (case out TypeError of None \<Rightarrow> Inr False | Some x \<Rightarrow> Inl x)
                               else Inr (the (point_x curve P) mod ts_prime self = r)))))"
proof (intro conjI impI)
  assume "r < 1 \<or> ts_prime self \<le> r \<or> s < 1 \<or> ts_prime self \<le> s"
  then have "r \<le> 0 \<or> r \<ge> ts_prime self \<or> s \<le> 0 \<or> s \<ge> ts_prime self" by auto
  then show "ts_verify_signature curve out self (SigPair r s) message = Inr False"
    by (simp add: ts_verify_signature_def ts_verify_body_def)
next
  assume rg: "1 \<le> r \<and> r < ts_prime self \<and> 1 \<le> s \<and> s < ts_prime self"
  from ts_verify_in_range[OF pr inf, of r s message out] rg
  obtain w where w: "(w * s) mod ts_prime self = 1"
    and v: "(let e = ec_sha256 curve message mod ts_prime self;
                u1 = (e * w) mod ts_prime self;
                u2 = (r * w) mod ts_prime self;
                P = point_add curve (scalar_mul curve u1 (generator curve))
                                    (scalar_mul curve u2 (ts_public_key self))
            in ts_verify_signature curve out self (SigPair r s) message
                 = (if P = INFINITY curve
                    then (case out TypeError of None \<Rightarrow> Inr False | Some x \<Rightarrow> Inl x)
                    else Inr (the (point_x curve P) mod ts_prime self = r)))"
    by blast
  show "\<exists>w. (w * s) mod ts_prime self = 1 \<and>
                  (let e = ec_sha256 curve message mod ts_prime self;
                       u1 = (e * w) mod ts_prime self;
                       u2 = (r * w) mod ts_prime self;
                       P = point_add curve (scalar_mul curve u1 (generator curve))
                                           (scalar_mul curve u2 (ts_public_key self))
                   in ((ts_verify_signature curve out self (SigPair r s) message = Inr True)
                         = (P \<noteq> INFINITY curve
                            \<and> the (point_x curve P) mod ts_prime self = r))
                      \<and> (P \<noteq> INFINITY curve \<or> out TypeError = None
                           \<longrightarrow> ts_verify_signature curve out self (SigPair r s) message
                                 = Inr (P \<noteq> INFINITY curve
                                        \<and> the (point_x curve P) mod ts_prime self = r))
                      \<and> ts_verify_signature curve out self (SigPair r s) message
                            = (if P = INFINITY curve
                               then (case out TypeError of None \<Rightarrow> Inr False | Some x \<Rightarrow> Inl x)
                               else Inr (the (point_x curve P) mod ts_prime self = r)))"
    using w v by (intro exI[of _ w]) (auto simp add: Let_def split: option.splits)
qed

theorem ecdsa_verify_signature_witness:
  "is_prime (ts_prime toy_ts)
   \<and> ts_verify_signature toy_curve out_ok toy_ts (SigPair 3 7) [0] = Inr False
   \<and> ts_verify_signature toy_curve out_ok toy_ts (SigPair 3 3) [0] = Inr True
   \<and> ts_verify_signature toy_curve out_ok toy_ts (SigPair 3 1) [] = Inr False
   \<and> (\<exists>w. (w * 3) mod ts_prime toy_ts = 1 \<and>
         (let e = ec_sha256 toy_curve [0] mod ts_prime toy_ts;
              u1 = (e * w) mod ts_prime toy_ts;
              u2 = (3 * w) mod ts_prime toy_ts;
              P = point_add toy_curve (scalar_mul toy_curve u1 (generator toy_curve))
                                      (scalar_mul toy_curve u2 (ts_public_key toy_ts))
          in ts_verify_signature toy_curve out_ok toy_ts (SigPair 3 3) [0]
               = Inr (P \<noteq> INFINITY toy_curve
                      \<and> the (point_x toy_curve P) mod ts_prime toy_ts = 3)))"
proof -
  have h1: "is_prime (ts_prime toy_ts)" by (simp add: toy_ts_simps is_prime_5)
  have h2: "\<forall>P. point_x toy_curve P = None \<longleftrightarrow> P = INFINITY toy_curve"
    by (simp add: toy_curve_def)
  have h3: "(3::int) < 1 \<or> ts_prime toy_ts \<le> 3 \<or> (7::int) < 1 \<or> ts_prime toy_ts \<le> 7"
    by (simp add: toy_ts_simps)
  have h4: "(1::int) \<le> 3 \<and> 3 < ts_prime toy_ts \<and> (1::int) \<le> 3 \<and> 3 < ts_prime toy_ts"
    by (simp add: toy_ts_simps)
  have h5: "ts_verify_signature toy_curve out_ok toy_ts (SigPair 3 3) [0] = Inr True" by code_simp
  have h6: "ts_verify_signature toy_curve out_ok toy_ts (SigPair 3 1) [] = Inr False" by code_simp
  have h7: "out_ok TypeError = None" by (simp add: out_ok_def)
  have "\<exists>w. (w * 3) mod ts_prime toy_ts = 1 \<and>
         (let e = ec_sha256 toy_curve [0] mod ts_prime toy_ts;
              u1 = (e * w) mod ts_prime toy_ts;
              u2 = (3 * w) mod ts_prime toy_ts;
              P = point_add toy_curve (scalar_mul toy_curve u1 (generator toy_curve))
                                      (scalar_mul toy_curve u2 (ts_public_key toy_ts))
          in ts_verify_signature toy_curve out_ok toy_ts (SigPair 3 3) [0]
               = Inr (P \<noteq> INFINITY toy_curve
                      \<and> the (point_x toy_curve P) mod ts_prime toy_ts = 3))"
    using ecdsa_verify_signature [OF h1 h2, of 3 3 out_ok "[0]"] h4 h7
    by (auto simp add: Let_def)
  then show ?thesis
    using ecdsa_verify_signature [OF h1 h2, of 3 7 out_ok "[0]"] h1 h3 h5 h6 by blast
qed

text \<open>
  C8, as amended. \<^verbatim>\<open>verify_signature\<close> of both files and
  \<^verbatim>\<open>verify_partial_signature\<close> catch every exception of their body that derives from
  \<^verbatim>\<open>Exception\<close>: the lookup and arithmetic errors of the body always do, the pairing
  library's and those of a malformed signature argument when they are of that kind. When
  the handler's \<^verbatim>\<open>print\<close> returns, such an error is reported as false and the method
  returns a boolean. An exception that does not derive from \<^verbatim>\<open>Exception\<close> is not
  caught: it leaves the method.
\<close>

theorem verification_reports_exceptions_as_false:
  assumes out: "\<forall>e. out e = None"
  shows "((\<forall>Q P e. pairing lib Q P = Inl e \<longrightarrow> is_Exception e)
            \<longrightarrow> (\<exists>b. verify_signature lib out self sig message = Inr b)
              \<and> (\<exists>b. verify_partial_signature lib out self partial_sig message = Inr b)
              \<and> (\<forall>e. verify_body lib self sig message = Inl e
                     \<longrightarrow> verify_signature lib out self sig message = Inr False)
              \<and> (\<forall>e. verify_partial_body lib self partial_sig message = Inl e
                     \<longrightarrow> verify_partial_signature lib out self partial_sig message = Inr False))
       \<and> (\<exists>b. ts_verify_signature curve out ecdsa_self (SigPair r s) message = Inr b)
       \<and> (\<forall>e. ts_verify_body curve ecdsa_self (SigPair r s) message = Inl e
              \<longrightarrow> ts_verify_signature curve out ecdsa_self (SigPair r s) message = Inr False)
       \<and> (\<forall>e. is_Exception e
              \<longrightarrow> ts_verify_signature curve out ecdsa_self (SigOther e) message = Inr False)
       \<and> (\<forall>e. \<not> is_Exception e \<and> verify_body lib self sig message = Inl e
              \<longrightarrow> verify_signature lib out self sig message = Inl e)
       \<and> (\<forall>e. \<not> is_Exception e \<and> verify_partial_body lib self partial_sig message = Inl e
              \<longrightarrow> verify_partial_signature lib out self partial_sig message = Inl e)
       \<and> (\<forall>e. \<not> is_Exception e
              \<longrightarrow> ts_verify_signature curve out ecdsa_self (SigOther e) message = Inl e)"
proof (intro conjI impI allI)
  assume lib: "\<forall>Q P e. pairing lib Q P = Inl e \<longrightarrow> is_Exception e"
  have b1: "is_Exception e" if "verify_body lib self sig message = Inl e" for e
    using verify_body_error[OF that] lib by blast
  have b2: "is_Exception e" if "verify_partial_body lib self partial_sig message = Inl e" for e
    using verify_partial_body_error[OF that] lib by auto
  show "\<exists>b. verify_signature lib out self sig message = Inr b"
    using b1 out by (cases "verify_body lib self sig message") (auto simp add: verify_signature_def)
  show "\<exists>b. verify_partial_signature lib out self partial_sig message = Inr b"
    using b2 out by (cases "verify_partial_body lib self partial_sig message")
      (auto simp add: verify_partial_signature_def)
  show "verify_signature lib out self sig message = Inr False"
    if "verify_body lib self sig message = Inl e" for e
    using that b1[OF that] out by (simp add: verify_signature_def)
  show "verify_partial_signature lib out self partial_sig message = Inr False"
    if "verify_partial_body lib self partial_sig message = Inl e" for e
    using that b2[OF that] out by (simp add: verify_partial_signature_def)
next
  show "\<exists>b. ts_verify_signature curve out ecdsa_self (SigPair r s) message = Inr b"
    using ts_verify_body_error[of curve ecdsa_self r s message] out
    by (cases "ts_verify_body curve ecdsa_self (SigPair r s) message")
      (auto simp add: ts_verify_signature_def)
next
  fix e assume "ts_verify_body curve ecdsa_self (SigPair r s) message = Inl e"
  then show "ts_verify_signature curve out ecdsa_self (SigPair r s) message = Inr False"
    using ts_verify_body_error[of curve ecdsa_self r s message e] out
    by (simp add: ts_verify_signature_def)
next
  fix e assume "is_Exception e"
  then show "ts_verify_signature curve out ecdsa_self (SigOther e) message = Inr False"
    using out by (simp add: ts_verify_signature_def ts_verify_body_def)
next
  fix e assume "\<not> is_Exception e \<and> verify_body lib self sig message = Inl e"
  then show "verify_signature lib out self sig message = Inl e"
    by (simp add: verify_signature_def)
next
  fix e assume "\<not> is_Exception e \<and> verify_partial_body lib self partial_sig message = Inl e"
  then show "verify_partial_signature lib out self partial_sig message = Inl e"
    by (simp add: verify_partial_signature_def)
next
  fix e assume "\<not> is_Exception e"
  then show "ts_verify_signature curve out ecdsa_self (SigOther e) message = Inl e"
    by (simp add: ts_verify_signature_def ts_verify_body_def)
qed

theorem verification_reports_exceptions_as_false_witness:
  "verify_body toy_bn128 toy_bls 0 [] = Inl LibraryError
   \<and> verify_signature toy_bn128 out_ok toy_bls 0 [] = Inr False
   \<and> verify_partial_body toy_bn128 toy_bls \<lparr>signer_id = 9, signature = 3\<rparr> [] = Inl UnknownParty
   \<and> verify_partial_signature toy_bn128 out_ok toy_bls \<lparr>signer_id = 9, signature = 3\<rparr> [] = Inr False
   \<and> ts_verify_body toy_curve toy_ts (SigPair 3 1) [] = Inl TypeError
   \<and> ts_verify_signature toy_curve out_ok toy_ts (SigPair 3 1) [] = Inr False
   \<and> ts_verify_signature toy_curve out_ok toy_ts (SigOther TypeError) [] = Inr False
   \<and> ts_verify_signature toy_curve out_ok toy_ts (SigOther KeyboardInterrupt) [] = Inl KeyboardInterrupt"
proof -
  have h0: "\<forall>e. out_ok e = None" by (simp add: out_ok_def)
  have h1: "verify_body toy_bn128 toy_bls 0 [] = Inl LibraryError"
    by (simp add: verify_body_def toy_bn128_def)
  have h2: "verify_partial_body toy_bn128 toy_bls \<lparr>signer_id = 9, signature = 3\<rparr> [] = Inl UnknownParty"
    by (simp add: verify_partial_body_def get_public_key_share_def toy_bls_simps)
  have h3: "ts_verify_body toy_curve toy_ts (SigPair 3 1) [] = Inl TypeError" by code_simp
  have h4: "is_Exception TypeError" "\<not> is_Exception KeyboardInterrupt" by simp_all
  show ?thesis
    using verification_reports_exceptions_as_false [OF h0, where lib = toy_bn128
        and self = toy_bls and sig = 0 and message = "[]"
        and partial_sig = "\<lparr>signer_id = 9, signature = 3\<rparr>"
        and curve = toy_curve and ecdsa_self = toy_ts and r = 3 and s = 1]
      toy_pairing_error h1 h2 h3 h4
    by blast
qed

text \<open>
  Exceptions that leave the three methods in the small instances: one that does not derive
  from \<^verbatim>\<open>Exception\<close>, raised while the signature argument is unpacked, and the
  \<open>UnicodeEncodeError\<close> of the handler's \<^verbatim>\<open>print\<close> on a stream that cannot
  encode its text, after an unknown party, a pairing error and a point at infinity.
\<close>

theorem verification_can_raise:
  "ts_verify_signature toy_curve out_ok toy_ts (SigOther KeyboardInterrupt) [] = Inl KeyboardInterrupt
   \<and> verify_partial_signature toy_bn128 out_ascii toy_bls \<lparr>signer_id = 9, signature = 3\<rparr> []
       = Inl UnicodeEncodeError
   \<and> verify_signature toy_bn128 out_ascii toy_bls 0 [] = Inl UnicodeEncodeError
   \<and> ts_verify_signature toy_curve out_ascii toy_ts (SigPair 3 1) [] = Inl UnicodeEncodeError"
proof (intro conjI)
  show "ts_verify_signature toy_curve out_ok toy_ts (SigOther KeyboardInterrupt) [] = Inl KeyboardInterrupt"
    by (simp add: ts_verify_signature_def ts_verify_body_def)
  show "verify_partial_signature toy_bn128 out_ascii toy_bls \<lparr>signer_id = 9, signature = 3\<rparr> []
       = Inl UnicodeEncodeError"
    by (simp add: verify_partial_signature_def verify_partial_body_def get_public_key_share_def
        toy_bls_simps out_ascii_def)
  show "verify_signature toy_bn128 out_ascii toy_bls 0 [] = Inl UnicodeEncodeError"
    by (simp add: verify_signature_def verify_body_def toy_bn128_def out_ascii_def)
  show "ts_verify_signature toy_curve out_ascii toy_ts (SigPair 3 1) [] = Inl UnicodeEncodeError"
    by code_simp
qed

text \<open>
  C9 (the aggregate is determined by the selected set). Given at least \<open>threshold\<close>
  partial signatures, \<^verbatim>\<open>combine_signatures\<close> returns what it returns on the first
  \<open>threshold\<close> of them alone, and the result is the same when these first
  \<open>threshold\<close> partial signatures are permuted.
\<close>

theorem aggregate_determined_by_selected_set:
  assumes laws: "g1_laws lib"
    and t: "0 \<le> threshold self" "threshold self \<le> int (length partial_sigs)"
  shows "combine_signatures lib self partial_sigs
           = combine_signatures lib self (py_prefix (threshold self) partial_sigs)
       \<and> (\<forall>perm. mset perm = mset (py_prefix (threshold self) partial_sigs)
             \<longrightarrow> combine_signatures lib self (perm @ drop (nat (threshold self)) partial_sigs)
                   = combine_signatures lib self partial_sigs)"
proof (intro conjI allI impI)
  let ?t = "nat (threshold self)"
  have z: "\<forall>P. add lib (Z1 lib) P = P" using g1_laws_zero[OF laws] by blast
  have comm: "\<forall>P Q. add lib P Q = add lib Q P" using g1_laws_comm[OF laws] by blast
  have assoc: "\<forall>P Q R. add lib (add lib P Q) R = add lib P (add lib Q R)"
    using g1_laws_assoc[OF laws] by blast
  have pre: "py_prefix (threshold self) partial_sigs = take ?t partial_sigs"
    using t by (simp add: py_prefix_def)
  have lt: "length (take ?t partial_sigs) = ?t" using t by simp
  have whole: "combine_signatures lib self partial_sigs
      = Inr (foldl (add lib) (Z1 lib) (bls_weights lib (prime self) (take ?t partial_sigs)))"
    by (rule combine_signatures_eq[OF z t])
  have "combine_signatures lib self (take ?t partial_sigs)
      = Inr (foldl (add lib) (Z1 lib)
               (bls_weights lib (prime self) (take ?t (take ?t partial_sigs))))"
    by (rule combine_signatures_eq[OF z t(1)]) (use t in simp)
  then show "combine_signatures lib self partial_sigs
      = combine_signatures lib self (py_prefix (threshold self) partial_sigs)"
    by (simp add: whole pre)
  fix perm
  assume "mset perm = mset (py_prefix (threshold self) partial_sigs)"
  then have ms: "mset perm = mset (take ?t partial_sigs)" by (simp only: pre)
  then have lp: "length perm = ?t" using lt by (metis mset_eq_length)
  let ?qs = "perm @ drop ?t partial_sigs"
  have tq: "take ?t ?qs = perm" using lp by simp
  have "threshold self \<le> int (length ?qs)" using t lp by simp
  then have "combine_signatures lib self ?qs
      = Inr (foldl (add lib) (Z1 lib) (bls_weights lib (prime self) perm))"
    using combine_signatures_eq[OF z t(1), of ?qs] by (simp only: tq)
  moreover have "foldl (add lib) (Z1 lib) (bls_weights lib (prime self) perm)
      = foldl (add lib) (Z1 lib) (bls_weights lib (prime self) (take ?t partial_sigs))"
    by (rule foldl_add_mset[OF comm assoc bls_weights_mset[OF ms]])
  ultimately show "combine_signatures lib self ?qs = combine_signatures lib self partial_sigs"
    by (simp add: whole)
qed

theorem aggregate_determined_by_selected_set_witness:
  "g1_laws toy_bn128
   \<and> threshold toy_bls \<le> int (length [\<lparr>signer_id = 1, signature = 1 :: 5\<rparr>,
          \<lparr>signer_id = 3, signature = 4\<rparr>, \<lparr>signer_id = 2, signature = 0\<rparr>])
   \<and> combine_signatures toy_bn128 toy_bls
        [\<lparr>signer_id = 1, signature = 1\<rparr>, \<lparr>signer_id = 3, signature = 4\<rparr>,
         \<lparr>signer_id = 2, signature = 0\<rparr>]
      = combine_signatures toy_bn128 toy_bls
          (py_prefix (threshold toy_bls)
             [\<lparr>signer_id = 1, signature = 1\<rparr>, \<lparr>signer_id = 3, signature = 4\<rparr>,
              \<lparr>signer_id = 2, signature = 0\<rparr>])
   \<and> combine_signatures toy_bn128 toy_bls
        ([\<lparr>signer_id = 3, signature = 4\<rparr>, \<lparr>signer_id = 1, signature = 1\<rparr>]
         @ drop (nat (threshold toy_bls))
             [\<lparr>signer_id = 1, signature = 1\<rparr>, \<lparr>signer_id = 3, signature = 4\<rparr>,
              \<lparr>signer_id = 2, signature = 0\<rparr>])
      = combine_signatures toy_bn128 toy_bls
          [\<lparr>signer_id = 1, signature = 1\<rparr>, \<lparr>signer_id = 3, signature = 4\<rparr>,
           \<lparr>signer_id = 2, signature = 0\<rparr>]"
proof -
  let ?ps = "[\<lparr>signer_id = 1, signature = 1 :: 5\<rparr>, \<lparr>signer_id = 3, signature = 4\<rparr>,
              \<lparr>signer_id = 2, signature = 0\<rparr>]"
  let ?perm = "[\<lparr>signer_id = 3, signature = 4 :: 5\<rparr>, \<lparr>signer_id = 1, signature = 1\<rparr>]"
  have h1: "g1_laws toy_bn128" by (rule toy_g1_laws)
  have h2: "0 \<le> threshold toy_bls" by (simp add: toy_bls_simps)
  have h3: "threshold toy_bls \<le> int (length ?ps)" by (simp add: toy_bls_simps)
  have h4: "mset ?perm = mset (py_prefix (threshold toy_bls) ?ps)"
    by (simp add: toy_bls_simps py_prefix_def)
  show ?thesis
    using aggregate_determined_by_selected_set [OF h1 h2 h3] h1 h3 h4 by blast
qed

text \<open>
  C10. ECDSA \<^verbatim>\<open>combine_signatures\<close> does not depend on its message argument: on
  the same partial signatures two messages give the same error or the same pair.
\<close>

theorem combine_ignores_message:
  "ts_combine_signatures self partial_sigs m1 = ts_combine_signatures self partial_sigs m2"
  by (simp add: ts_combine_signatures_def)

end
